theory Spec2Isabelle
  imports Main "HOL-Library.Monad_Syntax" "HOL-Library.Option_ord"
begin

section \<open>Strings and numbers of the JavaScript source\<close>

text \<open>
  A JavaScript string is a sequence of UTF-16 code units: \<^verbatim>\<open>.length\<close>,
  \<^verbatim>\<open>.substring\<close>, \<^verbatim>\<open>.slice\<close> and the regular expressions of \<^verbatim>\<open>cli.mjs\<close>
  (none has the \<^verbatim>\<open>u\<close> flag) all count code units. A string is modelled as the list of
  its code units, each a natural number; a character outside the Basic Multilingual Plane
  is the two code units of its surrogate pair.

  The numbers of the program are IEEE doubles. They are produced by \<^verbatim>\<open>parseInt\<close> on
  a run of decimal digits and are only added, divided by 60 and printed, so every number
  the program holds is a non-negative integer that a double represents, or
  \<^verbatim>\<open>Infinity\<close>; the type \<open>number\<close> below has these values, and its operations round as
  the doubles do.
\<close>

type_synonym jsstr = "nat list"

definition asc :: "string \<Rightarrow> jsstr" where
  "asc s = map of_char s"

text \<open>\<^verbatim>\<open>\d\<close> of a regular expression without the \<^verbatim>\<open>u\<close> flag: the ten ASCII digits.\<close>

definition is_digit :: "nat \<Rightarrow> bool" where
  "is_digit c = (48 \<le> c \<and> c \<le> 57)"

text \<open>LineTerminator of ECMAScript: what \<^verbatim>\<open>.\<close> of a regular expression refuses.\<close>

definition is_line_terminator :: "nat \<Rightarrow> bool" where
  "is_line_terminator c = (c = 0x0A \<or> c = 0x0D \<or> c = 0x2028 \<or> c = 0x2029)"

text \<open>What \<^verbatim>\<open>String.prototype.trim\<close> strips: WhiteSpace and LineTerminator.\<close>

definition is_space :: "nat \<Rightarrow> bool" where
  "is_space c = (c = 0x09 \<or> c = 0x0B \<or> c = 0x0C \<or> c = 0x20 \<or> c = 0xA0 \<or> c = 0x1680
     \<or> (0x2000 \<le> c \<and> c \<le> 0x200A) \<or> c = 0x202F \<or> c = 0x205F \<or> c = 0x3000 \<or> c = 0xFEFF
     \<or> is_line_terminator c)"

definition trim :: "jsstr \<Rightarrow> jsstr" where
  "trim s = rev (dropWhile is_space (rev (dropWhile is_space s)))"

text \<open>\<^verbatim>\<open>content.split('\n')\<close>: the empty string gives one empty line.\<close>

fun split_nl :: "jsstr \<Rightarrow> jsstr list" where
  "split_nl [] = [[]]"
| "split_nl (c # cs) =
     (if c = 10 then [] # split_nl cs
      else (case split_nl cs of [] \<Rightarrow> [[c]] | l # ls \<Rightarrow> (c # l) # ls))"

text \<open>\<^verbatim>\<open>Array.prototype.join\<close>.\<close>

fun join :: "jsstr \<Rightarrow> jsstr list \<Rightarrow> jsstr" where
  "join sep [] = []"
| "join sep [x] = x"
| "join sep (x # y # ys) = x @ sep @ join sep (y # ys)"

subsection \<open>Numbers\<close>

text \<open>The decimal digits of a natural number, and the natural number that a run of
  decimal digits denotes.\<close>

fun dec :: "nat \<Rightarrow> jsstr" where
  "dec n = (if n < 10 then [48 + n] else dec (n div 10) @ [48 + n mod 10])"

declare dec.simps [simp del]

definition digits_value :: "jsstr \<Rightarrow> nat" where
  "digits_value s = foldl (\<lambda>a c. 10 * a + (c - 48)) 0 s"

text \<open>
  A number of the program: \<open>Fin n\<close> is the double whose value is the integer \<open>n\<close>
  (the program only builds it for an \<open>n\<close> that a double represents).
\<close>

datatype number = Fin nat | Infinity

text \<open>The number of binary digits of \<open>n\<close>.\<close>

fun bits :: "nat \<Rightarrow> nat" where
  "bits n = (if n = 0 then 0 else Suc (bits (n div 2)))"

declare bits.simps [simp del]

text \<open>The quotient \<open>a / b\<close> rounded to the nearest integer, a tie going to the even
  one.\<close>

definition round_even :: "nat \<Rightarrow> nat \<Rightarrow> nat" where
  "round_even a b =
     (let q = a div b; r = a mod b
      in if 2 * r < b then q else if b < 2 * r then q + 1 else if even q then q else q + 1)"

text \<open>
  The double nearest to the integer \<open>n\<close> (round to nearest, ties to even). Every
  integer below \<open>2 ^ 53 = 9007199254740992\<close> is a double; a larger one keeps its 53
  leading binary digits, rounded, and a result of \<open>2 ^ 1024\<close> or more is
  \<^verbatim>\<open>Infinity\<close>.
\<close>

definition to_double :: "nat \<Rightarrow> number" where
  "to_double n =
     (if n < 9007199254740992 then Fin n
      else let e = bits n - 53;
               v = round_even n (2 ^ e) * 2 ^ e
           in if v < 2 ^ 1024 then Fin v else Infinity)"

text \<open>\<^verbatim>\<open>parseInt(s, 10)\<close> on a string of decimal digits: the double nearest to the
  integer the digits denote (the engine rounds the whole run of digits correctly; the
  capture groups of the patterns hold digits only).\<close>

definition parseInt :: "jsstr \<Rightarrow> number" where
  "parseInt s = to_double (digits_value s)"

text \<open>\<^verbatim>\<open>x + y\<close>: the exact sum, rounded.\<close>

fun js_add :: "number \<Rightarrow> number \<Rightarrow> number" where
  "js_add (Fin a) (Fin b) = to_double (a + b)"
| "js_add _ _ = Infinity"

text \<open>\<^verbatim>\<open>x > 0\<close>\<close>

definition positive :: "number \<Rightarrow> bool" where
  "positive x = (case x of Fin a \<Rightarrow> 0 < a | Infinity \<Rightarrow> True)"

text \<open>
  \<^verbatim>\<open>Math.floor(x / 60)\<close>. The quotient \<open>a / 60\<close> is rounded to a double with 53
  binary digits and then floored; \<open>270215977642229760\<close> is \<open>60 * 2 ^ 52\<close>. From that
  value on the quotient is at least \<open>2 ^ 52\<close> and its double is the integer
  \<open>round_even a (60 * 2 ^ e) * 2 ^ e\<close>, where \<open>2 ^ (52 + e)\<close> is the largest power of
  two not above the quotient. Below it the double is \<open>round_even (a * 2 ^ s) 60 / 2 ^ s\<close>,
  where \<open>s\<close> is the smallest exponent with \<open>60 * 2 ^ 52 \<le> a * 2 ^ s\<close>.
\<close>

definition floor_div60 :: "number \<Rightarrow> number" where
  "floor_div60 x =
     (case x of
        Infinity \<Rightarrow> Infinity
      | Fin a \<Rightarrow>
          if a = 0 then Fin 0
          else if 270215977642229760 \<le> a
          then (let e = bits (a div 270215977642229760) - 1
                in Fin (round_even a (60 * 2 ^ e) * 2 ^ e))
          else (let s = bits (270215977642229759 div a)
                in Fin (round_even (a * 2 ^ s) 60 div 2 ^ s)))"

text \<open>\<^verbatim>\<open>x % 60\<close>: exact on a finite number, \<^verbatim>\<open>NaN\<close> on \<^verbatim>\<open>Infinity\<close>.\<close>

datatype remainder = Rem nat | NaN

definition mod60 :: "number \<Rightarrow> remainder" where
  "mod60 x = (case x of Fin a \<Rightarrow> Rem (a mod 60) | Infinity \<Rightarrow> NaN)"

text \<open>
  A number inside a template literal (\<^verbatim>\<open>Number::toString\<close>). The digits printed are
  those of the decimal number with the fewest significant digits that rounds to the
  double, the nearest to it among these: \<open>cand x p\<close> looks for such a multiple of the
  power of ten \<open>p\<close> (the one just below \<open>x\<close> or the one just above), and
  \<open>shortest_from\<close> tries the powers of ten from the largest one not above \<open>x\<close>
  downwards. The result is printed in full below \<open>10 ^ 21\<close> and with an exponent from
  there on.
\<close>

definition cand :: "nat \<Rightarrow> nat \<Rightarrow> nat option" where
  "cand x p =
     (let lo = (x div p) * p;
          hi = lo + p;
          ok_lo = (to_double lo = Fin x);
          ok_hi = (to_double hi = Fin x)
      in if ok_lo \<and> ok_hi
         then (if x - lo < hi - x then Some lo
               else if hi - x < x - lo then Some hi
               else if even (x div p) then Some lo else Some hi)
         else if ok_lo then Some lo
         else if ok_hi then Some hi
         else None)"

fun top_pow10 :: "nat \<Rightarrow> nat" where
  "top_pow10 x = (if x < 10 then 1 else 10 * top_pow10 (x div 10))"

declare top_pow10.simps [simp del]

fun shortest_from :: "nat \<Rightarrow> nat \<Rightarrow> nat" where
  "shortest_from x p =
     (if p \<le> 1 then x
      else (case cand x p of Some c \<Rightarrow> c | None \<Rightarrow> shortest_from x (p div 10)))"

declare shortest_from.simps [simp del]

definition shortest :: "nat \<Rightarrow> nat" where
  "shortest x = shortest_from x (top_pow10 x)"

definition exp_form :: "nat \<Rightarrow> jsstr" where
  "exp_form c =
     (let ds = dec c;
          sig = rev (dropWhile (\<lambda>d. d = 48) (rev ds))
      in (case sig of [] \<Rightarrow> [] | d # more \<Rightarrow> if more = [] then [d] else d # 46 # more)
         @ asc ''e+'' @ dec (length ds - 1))"

definition num_str :: "number \<Rightarrow> jsstr" where
  "num_str x =
     (case x of
        Infinity \<Rightarrow> asc ''Infinity''
      | Fin n \<Rightarrow> (let c = shortest n in if c < 1000000000000000000000 then dec c else exp_form c))"

definition rem_str :: "remainder \<Rightarrow> jsstr" where
  "rem_str m = (case m of Rem r \<Rightarrow> dec r | NaN \<Rightarrow> asc ''NaN'')"

section \<open>Date helpers\<close>

definition fmtHours :: "number \<Rightarrow> jsstr" where
  "fmtHours mins =
     (let h = floor_div60 mins;
          m = mod60 mins
      in if positive h then num_str h @ asc ''h '' @ rem_str m @ asc ''m''
         else rem_str m @ asc ''m'')"

section \<open>Proof-log parser\<close>

subsection \<open>The five regular expressions\<close>

text \<open>
  Each regular expression is anchored at the start of the line and is written out as the
  matcher it denotes, returning its capture groups. \<open>strip_prefix\<close> is a literal,
  \<open>digitsN n\<close> is \<^verbatim>\<open>\d{n}\<close> and \<open>digits1\<close> is \<^verbatim>\<open>(\d+)\<close>. In every pattern a
  \<^verbatim>\<open>\d+\<close> is followed by a literal that starts with a non-digit, so the greedy run of
  digits is the only length at which the rest can match.
\<close>

fun strip_prefix :: "jsstr \<Rightarrow> jsstr \<Rightarrow> jsstr option" where
  "strip_prefix [] s = Some s"
| "strip_prefix (p # ps) [] = None"
| "strip_prefix (p # ps) (c # cs) = (if p = c then strip_prefix ps cs else None)"

definition digitsN :: "nat \<Rightarrow> jsstr \<Rightarrow> jsstr option" where
  "digitsN n s =
     (if n \<le> length s \<and> list_all is_digit (take n s) then Some (drop n s) else None)"

definition digits1 :: "jsstr \<Rightarrow> (jsstr \<times> jsstr) option" where
  "digits1 s =
     (let d = takeWhile is_digit s
      in if d = [] then None else Some (d, dropWhile is_digit s))"

text \<open>\<^verbatim>\<open>/^### (\d{4}-\d{2}-\d{2}) (\d{2}:\d{2})-(\d{2}:\d{2}) JST/\<close>; the result is group 1,
  the only group the parser reads.\<close>

definition SESSION_HEADER :: "jsstr \<Rightarrow> jsstr option" where
  "SESSION_HEADER line = do {
     r0 \<leftarrow> strip_prefix (asc ''### '') line;
     r \<leftarrow> digitsN 4 r0;
     r \<leftarrow> strip_prefix (asc ''-'') r;
     r \<leftarrow> digitsN 2 r;
     r \<leftarrow> strip_prefix (asc ''-'') r;
     r \<leftarrow> digitsN 2 r;
     r \<leftarrow> strip_prefix (asc '' '') r;
     r \<leftarrow> digitsN 2 r;
     r \<leftarrow> strip_prefix (asc '':'') r;
     r \<leftarrow> digitsN 2 r;
     r \<leftarrow> strip_prefix (asc ''-'') r;
     r \<leftarrow> digitsN 2 r;
     r \<leftarrow> strip_prefix (asc '':'') r;
     r \<leftarrow> digitsN 2 r;
     _ \<leftarrow> strip_prefix (asc '' JST'') r;
     Some (take 10 r0)
   }"

text \<open>\<^verbatim>\<open>/^- \u3069\u3053\u3067: (.+)$/\<close>: the rest of the line, non-empty and free of
  line terminators.\<close>

definition WHERE_LINE :: "jsstr \<Rightarrow> jsstr option" where
  "WHERE_LINE line = do {
     r \<leftarrow> strip_prefix (asc ''- '' @ [0x3069, 0x3053, 0x3067] @ asc '': '') line;
     if r \<noteq> [] \<and> list_all (\<lambda>c. \<not> is_line_terminator c) r then Some r else None
   }"

text \<open>\<^verbatim>\<open>/^- \u8AB0\u304C: CC: (\d+)\u4EF6/\<close>\<close>

definition WHO_LINE :: "jsstr \<Rightarrow> jsstr option" where
  "WHO_LINE line = do {
     r \<leftarrow> strip_prefix (asc ''- '' @ [0x8AB0, 0x304C] @ asc '': CC: '') line;
     (d, r) \<leftarrow> digits1 r;
     _ \<leftarrow> strip_prefix [0x4EF6] r;
     Some d
   }"

text \<open>\<^verbatim>\<open>/^- \u4F55\u3092: (\d+)\u30D5\u30A1\u30A4\u30EB\u5909\u66F4 \(\+(\d+)\/-(\d+)\)/\<close>\<close>

definition WHAT_LINE :: "jsstr \<Rightarrow> (jsstr \<times> jsstr \<times> jsstr) option" where
  "WHAT_LINE line = do {
     r \<leftarrow> strip_prefix (asc ''- '' @ [0x4F55, 0x3092] @ asc '': '') line;
     (d1, r) \<leftarrow> digits1 r;
     r \<leftarrow> strip_prefix ([0x30D5, 0x30A1, 0x30A4, 0x30EB, 0x5909, 0x66F4] @ asc '' (+'') r;
     (d2, r) \<leftarrow> digits1 r;
     r \<leftarrow> strip_prefix (asc ''/-'') r;
     (d3, r) \<leftarrow> digits1 r;
     _ \<leftarrow> strip_prefix (asc '')'') r;
     Some (d1, d2, d3)
   }"

text \<open>
  \<^verbatim>\<open>/^- \u3044\u3064: .+JST\uFF08(\d+)\u5206\uFF09/\<close>. The greedy \<^verbatim>\<open>.+\<close> first takes the
  longest run free of line terminators and then gives characters back one at a time, down
  to one character, until the tail \<^verbatim>\<open>JST\uFF08(\d+)\u5206\uFF09\<close> matches:
  \<open>DURATION_back i r\<close> tries the lengths \<open>i, i - 1, \<dots>, 1\<close> in that order.
\<close>

definition DURATION_tail :: "jsstr \<Rightarrow> jsstr option" where
  "DURATION_tail s = do {
     r \<leftarrow> strip_prefix (asc ''JST'' @ [0xFF08]) s;
     (d, r) \<leftarrow> digits1 r;
     _ \<leftarrow> strip_prefix [0x5206, 0xFF09] r;
     Some d
   }"

fun DURATION_back :: "nat \<Rightarrow> jsstr \<Rightarrow> jsstr option" where
  "DURATION_back 0 r = None"
| "DURATION_back (Suc i) r =
     (case DURATION_tail (drop (Suc i) r) of
        Some d \<Rightarrow> Some d
      | None \<Rightarrow> DURATION_back i r)"

definition DURATION_LINE :: "jsstr \<Rightarrow> jsstr option" where
  "DURATION_LINE line = do {
     r \<leftarrow> strip_prefix (asc ''- '' @ [0x3044, 0x3064] @ asc '': '') line;
     DURATION_back (length (takeWhile (\<lambda>c. \<not> is_line_terminator c) r)) r
   }"

subsection \<open>parseProofLog\<close>

record session =
  date :: jsstr
  durationMin :: number
  project :: "jsstr option"
  ccActions :: number
  filesChanged :: number
  linesAdded :: number
  linesRemoved :: number

text \<open>The object literal of lines 96 to 104.\<close>

definition new_session :: "jsstr \<Rightarrow> session" where
  "new_session d =
     \<lparr>date = d, durationMin = Fin 0, project = None, ccActions = Fin 0,
      filesChanged = Fin 0, linesAdded = Fin 0, linesRemoved = Fin 0\<rparr>"

text \<open>Lines 109 to 124: the four field matchers, tried in the order of the source, on a
  line that is not a header while a session is open.\<close>

definition field_line :: "jsstr \<Rightarrow> session \<Rightarrow> session" where
  "field_line line current =
     (case DURATION_LINE line of
        Some d \<Rightarrow> current\<lparr>durationMin := parseInt d\<rparr>
      | None \<Rightarrow>
     (case WHERE_LINE line of
        Some w \<Rightarrow> current\<lparr>project := Some (trim w)\<rparr>
      | None \<Rightarrow>
     (case WHO_LINE line of
        Some n \<Rightarrow> current\<lparr>ccActions := parseInt n\<rparr>
      | None \<Rightarrow>
     (case WHAT_LINE line of
        Some (f, a, r) \<Rightarrow>
          current\<lparr>filesChanged := parseInt f, linesAdded := parseInt a,
                  linesRemoved := parseInt r\<rparr>
      | None \<Rightarrow> current))))"

text \<open>\<^verbatim>\<open>if (current) sessions.push(current)\<close>\<close>

definition push_current :: "session list \<Rightarrow> session option \<Rightarrow> session list" where
  "push_current out current = (case current of Some c \<Rightarrow> out @ [c] | None \<Rightarrow> out)"

text \<open>The \<^verbatim>\<open>for\<close> loop of lines 91 to 125 and the final push of line 126; \<open>out\<close> is the
  array \<^verbatim>\<open>sessions\<close>.\<close>

fun parse_loop :: "jsstr list \<Rightarrow> session list \<Rightarrow> session option \<Rightarrow> session list" where
  "parse_loop [] out current = push_current out current"
| "parse_loop (raw # rest) out current =
     (let line = trim raw in
      case SESSION_HEADER line of
        Some d \<Rightarrow> parse_loop rest (push_current out current) (Some (new_session d))
      | None \<Rightarrow>
          (case current of
             None \<Rightarrow> parse_loop rest out None
           | Some c \<Rightarrow> parse_loop rest out (Some (field_line line c))))"

definition parseProofLog :: "jsstr \<Rightarrow> session list" where
  "parseProofLog content = parse_loop (split_nl content) [] None"

section \<open>Load and aggregate\<close>

text \<open>One value of \<^verbatim>\<open>byProject\<close>; \<open>linesAdded_p\<close> is its field \<^verbatim>\<open>linesAdded\<close>.\<close>

record stats =
  minutes :: number
  sessions :: number
  linesAdded_p :: number
  files :: number

text \<open>
  The module-level variables of lines 133 to 140. \<^verbatim>\<open>byProject\<close> is an ordinary object
  created by \<^verbatim>\<open>{}\<close>: \<open>byProject\<close> holds its own properties in the order of their
  creation, and its prototype is \<^verbatim>\<open>Object.prototype\<close>.
\<close>

record state =
  isGhostDay :: bool
  byProject :: "(jsstr \<times> stats) list"
  totalMinutes :: number
  totalSessions :: number
  totalLines :: number
  totalFiles :: number
  totalActions :: number

text \<open>
  The property names of \<^verbatim>\<open>Object.prototype\<close>: reading one of them from an object that
  has no own property of that name gives the inherited function (for \<^verbatim>\<open>__proto__\<close>,
  the prototype object itself), which is truthy.
\<close>

definition Object_prototype_names :: "jsstr list" where
  "Object_prototype_names = map asc
     [''constructor'', ''__defineGetter__'', ''__defineSetter__'', ''hasOwnProperty'',
      ''__lookupGetter__'', ''__lookupSetter__'', ''isPrototypeOf'',
      ''propertyIsEnumerable'', ''toString'', ''valueOf'', ''__proto__'',
      ''toLocaleString'']"

definition inherited :: "jsstr \<Rightarrow> bool" where
  "inherited k = (k \<in> set Object_prototype_names)"

text \<open>\<^verbatim>\<open>!byProject[p]\<close>: true when \<open>p\<close> is neither an own property (every own value is
  an object) nor inherited. The properties the loop itself may add to an inherited object
  hold \<^verbatim>\<open>NaN\<close>, which is falsy, so they do not change this test.\<close>

definition no_bucket :: "(jsstr \<times> stats) list \<Rightarrow> jsstr \<Rightarrow> bool" where
  "no_bucket bp p = (map_of bp p = None \<and> \<not> inherited p)"

text \<open>Lines 158 to 161 on the own property \<open>p\<close>. When \<open>p\<close> is inherited the four
  updates go to the inherited object and \<^verbatim>\<open>byProject\<close> keeps its own properties.\<close>

definition bump :: "jsstr \<Rightarrow> session \<Rightarrow> (jsstr \<times> stats) list \<Rightarrow> (jsstr \<times> stats) list" where
  "bump p s bp =
     map (\<lambda>(k, b). if k = p
            then (k, b\<lparr>minutes := js_add (minutes b) (durationMin s),
                       sessions := js_add (sessions b) (Fin 1),
                       linesAdded_p := js_add (linesAdded_p b) (linesAdded s),
                       files := js_add (files b) (filesChanged s)\<rparr>)
            else (k, b)) bp"

text \<open>The body of the loop of lines 147 to 162; \<^verbatim>\<open>!s.project\<close> holds for
  \<^verbatim>\<open>null\<close> and for the empty string.\<close>

definition add_session :: "state \<Rightarrow> session \<Rightarrow> state" where
  "add_session st s =
     (case project s of
        None \<Rightarrow> st
      | Some p \<Rightarrow>
          if p = [] then st
          else
            let bp = byProject st;
                bp1 = (if no_bucket bp p
                       then bp @ [(p, \<lparr>minutes = Fin 0, sessions = Fin 0,
                                       linesAdded_p = Fin 0, files = Fin 0\<rparr>)]
                       else bp)
            in st\<lparr>totalSessions := js_add (totalSessions st) (Fin 1),
                  totalMinutes := js_add (totalMinutes st) (durationMin s),
                  totalLines := js_add (totalLines st) (linesAdded s),
                  totalFiles := js_add (totalFiles st) (filesChanged s),
                  totalActions := js_add (totalActions st) (ccActions s),
                  byProject := bump p s bp1\<rparr>)"

definition init_state :: "bool \<Rightarrow> state" where
  "init_state ghost =
     \<lparr>isGhostDay = ghost, byProject = [], totalMinutes = Fin 0, totalSessions = Fin 0,
      totalLines = Fin 0, totalFiles = Fin 0, totalActions = Fin 0\<rparr>"

definition aggregate :: "session list \<Rightarrow> state" where
  "aggregate ss = foldl add_session (init_state False) ss"

text \<open>The log file as \<^verbatim>\<open>existsSync\<close> and \<^verbatim>\<open>readFileSync\<close> see it: absent, present
  but failing to read (the \<^verbatim>\<open>catch\<close> of line 163), or read as a string.\<close>

datatype logfile = Missing | Unreadable | Content jsstr

definition load :: "logfile \<Rightarrow> state" where
  "load f =
     (case f of
        Missing \<Rightarrow> init_state True
      | Unreadable \<Rightarrow> init_state False
      | Content content \<Rightarrow> aggregate (parseProofLog content))"

text \<open>
  \<^verbatim>\<open>Object.entries\<close> lists the own properties whose names are array indices (the
  canonical decimal form of an integer below \<open>2 ^ 32 - 1\<close>) first, in ascending numeric
  order, and then the other names in the order of their creation.
\<close>

definition is_array_index :: "jsstr \<Rightarrow> bool" where
  "is_array_index k =
     (case k of
        [] \<Rightarrow> False
      | c # cs \<Rightarrow> list_all is_digit k \<and> (if c = 48 then cs = [] else True)
                 \<and> digits_value k < 4294967295)"

definition entries :: "(jsstr \<times> stats) list \<Rightarrow> (jsstr \<times> stats) list" where
  "entries bp =
     sort_key (\<lambda>e. digits_value (fst e)) (filter (\<lambda>e. is_array_index (fst e)) bp)
     @ filter (\<lambda>e. \<not> is_array_index (fst e)) bp"

text \<open>
  \<^verbatim>\<open>.sort((a, b) => b[1].minutes - a[1].minutes)\<close>. The difference is negative when
  \<^verbatim>\<open>a\<close> has more minutes, positive when it has fewer, and zero or \<^verbatim>\<open>NaN\<close> (which
  the sort takes as zero) when both have the same: the comparator orders the entries by
  decreasing minutes, \<^verbatim>\<open>Infinity\<close> first. \<^verbatim>\<open>Array.prototype.sort\<close> is stable, and so is
  the insertion sort \<open>sort_key\<close>; \<open>desc_key\<close> is a key that grows as the minutes
  decrease (\<open>None\<close> is the least element of the order on options).
\<close>

definition desc_key :: "number \<Rightarrow> int option" where
  "desc_key x = (case x of Infinity \<Rightarrow> None | Fin n \<Rightarrow> Some (- int n))"

definition sortedProjects :: "state \<Rightarrow> (jsstr \<times> stats) list" where
  "sortedProjects st = sort_key (\<lambda>e. desc_key (minutes (snd e))) (entries (byProject st))"

section \<open>Formatters\<close>

text \<open>
  The formatters read \<^verbatim>\<open>targetDate\<close>, the weekday \<^verbatim>\<open>dow\<close> and the variables of the
  aggregation. \<^verbatim>\<open>toLocaleString\<close> depends on the locale of the process and
  \<^verbatim>\<open>toFixed\<close> on the double nearest to a quotient: both are parameters, the string
  each returns for a number of lines.
\<close>

definition label :: "jsstr \<Rightarrow> jsstr \<Rightarrow> jsstr" where
  "label targetDate dow = targetDate @ asc '' ('' @ dow @ asc '')''"

definition ghost :: "state \<Rightarrow> bool" where
  "ghost st = (isGhostDay st \<or> totalSessions st = Fin 0)"

definition FOOTER :: jsstr where
  "FOOTER = asc ''Generated by cc-standup''"

definition plain_ghost_lines :: "jsstr list" where
  "plain_ghost_lines =
     [[0xD83D, 0xDC7B] @ asc '' Ghost Day '' @ [0x2014]
        @ asc '' AI worked autonomously. No sessions logged.'', []]"

definition plain_project :: "(number \<Rightarrow> jsstr) \<Rightarrow> jsstr \<times> stats \<Rightarrow> jsstr" where
  "plain_project toLocaleString e =
     (case e of (proj, stats) \<Rightarrow>
        let parts = [fmtHours (minutes stats)]
              @ (if positive (sessions stats) then [num_str (sessions stats) @ asc '' sessions''] else [])
              @ (if positive (linesAdded_p stats)
                 then [asc ''+'' @ toLocaleString (linesAdded_p stats) @ asc '' lines'']
                 else [])
        in asc ''  '' @ [0x2022] @ asc '' '' @ proj @ asc '' '' @ [0x2014] @ asc '' ''
             @ join (asc '' | '') parts)"

definition plain_work_lines :: "(number \<Rightarrow> jsstr) \<Rightarrow> state \<Rightarrow> jsstr list" where
  "plain_work_lines toLocaleString st =
     [[0x2705] @ asc '' Yesterday'' @ [39] @ asc ''s work:'']
     @ map (plain_project toLocaleString) (sortedProjects st)
     @ [[]]
     @ (let totalParts = [fmtHours (totalMinutes st),
                          num_str (totalSessions st) @ asc '' sessions'',
                          asc ''+'' @ toLocaleString (totalLines st) @ asc '' lines'']
              @ (if positive (totalFiles st) then [num_str (totalFiles st) @ asc '' files''] else [])
        in [[0xD83D, 0xDCCA] @ asc '' Total: '' @ join (asc '' | '') totalParts])
     @ [[]]"

definition continuing :: "state \<Rightarrow> jsstr" where
  "continuing st =
     [0xD83D, 0xDD1C] @ asc '' Continuing: '' @ join (asc '', '') (map fst (sortedProjects st))"

definition plain_lines :: "(number \<Rightarrow> jsstr) \<Rightarrow> jsstr \<Rightarrow> jsstr \<Rightarrow> state \<Rightarrow> jsstr list" where
  "plain_lines toLocaleString targetDate dow st =
     [[0xD83D, 0xDCCB] @ asc '' AI Standup '' @ [0x2014] @ asc '' '' @ label targetDate dow, []]
     @ (if ghost st then plain_ghost_lines else plain_work_lines toLocaleString st)
     @ (if length (sortedProjects st) > 0 then [continuing st, []] else [])
     @ [FOOTER]"

definition formatPlain :: "(number \<Rightarrow> jsstr) \<Rightarrow> jsstr \<Rightarrow> jsstr \<Rightarrow> state \<Rightarrow> jsstr" where
  "formatPlain toLocaleString targetDate dow st =
     join [10] (plain_lines toLocaleString targetDate dow st)"

definition slack_ghost_lines :: "jsstr list" where
  "slack_ghost_lines =
     [[0xD83D, 0xDC7B] @ asc '' *Ghost Day* '' @ [0x2014]
        @ asc '' AI worked autonomously. No sessions logged.'']"

definition slack_project :: "(number \<Rightarrow> jsstr) \<Rightarrow> jsstr \<times> stats \<Rightarrow> jsstr" where
  "slack_project toLocaleString e =
     (case e of (proj, stats) \<Rightarrow>
        let parts = [fmtHours (minutes stats)]
              @ (if positive (linesAdded_p stats)
                 then [asc ''+'' @ toLocaleString (linesAdded_p stats) @ asc '' lines'']
                 else [])
        in [0x2022] @ asc '' '' @ [96] @ proj @ [96] @ asc '' '' @ [0x2014] @ asc '' ''
             @ join (asc '', '') parts)"

definition slack_work_lines :: "(number \<Rightarrow> jsstr) \<Rightarrow> state \<Rightarrow> jsstr list" where
  "slack_work_lines toLocaleString st =
     [[0x2705] @ asc '' *Yesterday'' @ [39] @ asc ''s work:*'']
     @ map (slack_project toLocaleString) (sortedProjects st)
     @ [[]]
     @ [[0xD83D, 0xDCCA] @ asc '' *Total:* '' @ fmtHours (totalMinutes st) @ asc '' | ''
          @ num_str (totalSessions st) @ asc '' sessions | +''
          @ toLocaleString (totalLines st) @ asc '' lines'']
     @ (if length (sortedProjects st) > 0
        then [[0xD83D, 0xDD1C] @ asc '' *Continuing:* ''
                @ join (asc '', '') (map (\<lambda>e. [96] @ fst e @ [96]) (sortedProjects st))]
        else [])"

definition slack_lines :: "(number \<Rightarrow> jsstr) \<Rightarrow> jsstr \<Rightarrow> jsstr \<Rightarrow> state \<Rightarrow> jsstr list" where
  "slack_lines toLocaleString targetDate dow st =
     [asc ''*AI Standup '' @ [0x2014] @ asc '' '' @ label targetDate dow @ asc ''*'', []]
     @ (if ghost st then slack_ghost_lines else slack_work_lines toLocaleString st)"

definition formatSlack :: "(number \<Rightarrow> jsstr) \<Rightarrow> jsstr \<Rightarrow> jsstr \<Rightarrow> state \<Rightarrow> jsstr" where
  "formatSlack toLocaleString targetDate dow st =
     join [10] (slack_lines toLocaleString targetDate dow st)"

definition tweet_ghost_parts :: "jsstr \<Rightarrow> jsstr list" where
  "tweet_ghost_parts targetDate =
     [asc ''AI Standup '' @ drop 5 targetDate @ asc '' '' @ [0xD83D, 0xDC7B],
      asc ''Ghost Day '' @ [0x2014] @ asc '' AI ran autonomously'',
      asc ''#claudecode'']"

text \<open>Lines 246 to 249; \<open>toFixed1 n\<close> is \<^verbatim>\<open>(n / 1000).toFixed(1)\<close>.\<close>

definition tweet_project :: "(number \<Rightarrow> jsstr) \<Rightarrow> jsstr \<times> stats \<Rightarrow> jsstr" where
  "tweet_project toFixed1 e =
     (case e of (proj, stats) \<Rightarrow>
        [0x2705] @ asc '' '' @ proj @ asc '': '' @ fmtHours (minutes stats)
        @ (if positive (linesAdded_p stats)
           then asc '' (+'' @ toFixed1 (linesAdded_p stats) @ asc ''K lines)''
           else []))"

definition tweet_work_parts :: "(number \<Rightarrow> jsstr) \<Rightarrow> jsstr \<Rightarrow> state \<Rightarrow> jsstr list" where
  "tweet_work_parts toFixed1 targetDate st =
     [asc ''AI Standup '' @ drop 5 targetDate @ asc '' '' @ [0xD83E, 0xDD16]]
     @ map (tweet_project toFixed1) (take 3 (sortedProjects st))
     @ [[],
        asc ''Total: '' @ fmtHours (totalMinutes st) @ asc '' | ''
          @ num_str (totalSessions st) @ asc '' sessions'',
        asc ''#claudecode #aidev'']"

definition tweet_parts :: "(number \<Rightarrow> jsstr) \<Rightarrow> jsstr \<Rightarrow> state \<Rightarrow> jsstr list" where
  "tweet_parts toFixed1 targetDate st =
     (if ghost st then tweet_ghost_parts targetDate
      else tweet_work_parts toFixed1 targetDate st)"

definition formatTweet :: "(number \<Rightarrow> jsstr) \<Rightarrow> jsstr \<Rightarrow> state \<Rightarrow> jsstr" where
  "formatTweet toFixed1 targetDate st =
     (let tweet = join [10] (tweet_parts toFixed1 targetDate st)
      in if length tweet > 280 then take 277 tweet @ asc ''...'' else tweet)"

section \<open>Notions used to state the properties\<close>

text \<open>
  A session block inside a log: the lines of \<open>content\<close> are \<open>pre\<close>, then the header
  \<open>h\<close> with date \<open>d\<close>, then the lines \<open>body\<close> none of which is a header, then
  \<open>post\<close>, which is empty or starts with the next header. The block is the one of the
  header number \<open>block_index pre\<close>, counting from zero.
\<close>

definition is_block :: "jsstr \<Rightarrow> jsstr list \<Rightarrow> jsstr \<Rightarrow> jsstr list \<Rightarrow> jsstr list \<Rightarrow> jsstr \<Rightarrow> bool" where
  "is_block content pre h body post d =
     (split_nl content = pre @ h # body @ post
      \<and> SESSION_HEADER (trim h) = Some d
      \<and> list_all (\<lambda>raw. SESSION_HEADER (trim raw) = None) body
      \<and> (case post of [] \<Rightarrow> True | p # _ \<Rightarrow> SESSION_HEADER (trim p) \<noteq> None))"

definition block_index :: "jsstr list \<Rightarrow> nat" where
  "block_index pre = length (filter (\<lambda>raw. SESSION_HEADER (trim raw) \<noteq> None) pre)"

text \<open>What the loop leaves in \<^verbatim>\<open>current\<close> after a header with date \<open>d\<close> and the
  lines \<open>body\<close>.\<close>

definition block_session :: "jsstr \<Rightarrow> jsstr list \<Rightarrow> session" where
  "block_session d body = foldl (\<lambda>c raw. field_line (trim raw) c) (new_session d) body"

text \<open>The capture of the last line of \<open>body\<close> that the pattern \<open>f\<close> matches.\<close>

fun last_match :: "(jsstr \<Rightarrow> 'a option) \<Rightarrow> jsstr list \<Rightarrow> 'a option" where
  "last_match f [] = None"
| "last_match f (raw # rest) =
     (case last_match f rest of Some v \<Rightarrow> Some v | None \<Rightarrow> f (trim raw))"

text \<open>A line that none of the five patterns matches.\<close>

definition unrecognised :: "jsstr \<Rightarrow> bool" where
  "unrecognised line =
     (SESSION_HEADER line = None \<and> DURATION_LINE line = None \<and> WHERE_LINE line = None
      \<and> WHO_LINE line = None \<and> WHAT_LINE line = None)"

text \<open>\<open>x \<le> y\<close> on numbers.\<close>

definition num_le :: "number \<Rightarrow> number \<Rightarrow> bool" where
  "num_le x y =
     (case y of Infinity \<Rightarrow> True | Fin b \<Rightarrow> (case x of Infinity \<Rightarrow> False | Fin a \<Rightarrow> a \<le> b))"

text \<open>\<^verbatim>\<open>!s.project\<close> is false: the session is counted by the aggregation.\<close>

definition retained :: "session \<Rightarrow> bool" where
  "retained s = (case project s of None \<Rightarrow> False | Some p \<Rightarrow> p \<noteq> [])"

text \<open>A retained session whose project name is not a property name of
  \<^verbatim>\<open>Object.prototype\<close>.\<close>

definition listed :: "session \<Rightarrow> bool" where
  "listed s = (case project s of None \<Rightarrow> False | Some p \<Rightarrow> p \<noteq> [] \<and> \<not> inherited p)"

text \<open>The sum of a list of numbers as a natural number, when none is \<^verbatim>\<open>Infinity\<close>.\<close>

fun exact_sum :: "number list \<Rightarrow> nat option" where
  "exact_sum [] = Some 0"
| "exact_sum (Fin n # xs) = map_option ((+) n) (exact_sum xs)"
| "exact_sum (Infinity # xs) = None"

text \<open>The elements of a list in the order of their first occurrence.\<close>

fun first_seen :: "'a list \<Rightarrow> 'a list" where
  "first_seen [] = []"
| "first_seen (x # xs) = x # filter (\<lambda>y. y \<noteq> x) (first_seen xs)"

text \<open>The number of parsed sessions with a project; a file that is missing or cannot be
  read has no session.\<close>

definition retained_count :: "logfile \<Rightarrow> nat" where
  "retained_count f =
     (case f of
        Missing \<Rightarrow> 0
      | Unreadable \<Rightarrow> 0
      | Content content \<Rightarrow> length (filter (\<lambda>s. project s \<noteq> None) (parseProofLog content)))"

subsection \<open>Example logs\<close>

definition ex_header :: "string \<Rightarrow> jsstr" where
  "ex_header t = asc ''### 2026-02-27 '' @ asc t @ asc '' JST''"

definition ex_where :: "string \<Rightarrow> jsstr" where
  "ex_where p = asc ''- '' @ [0x3069, 0x3053, 0x3067] @ asc '': '' @ asc p"

definition ex_who :: "string \<Rightarrow> jsstr" where
  "ex_who n = asc ''- '' @ [0x8AB0, 0x304C] @ asc '': CC: '' @ asc n @ [0x4EF6]"

definition ex_what :: "string \<Rightarrow> string \<Rightarrow> string \<Rightarrow> jsstr" where
  "ex_what f a r = asc ''- '' @ [0x4F55, 0x3092] @ asc '': '' @ asc f
     @ [0x30D5, 0x30A1, 0x30A4, 0x30EB, 0x5909, 0x66F4] @ asc '' (+'' @ asc a @ asc ''/-''
     @ asc r @ asc '')''"

definition ex_duration :: "string \<Rightarrow> jsstr" where
  "ex_duration n =
     asc ''- '' @ [0x3044, 0x3064] @ asc '': 2026-02-27 JST'' @ [0xFF08] @ asc n @ [0x5206, 0xFF09]"

text \<open>A header with no field line, followed by a second block.\<close>

definition log_bare :: "jsstr list" where
  "log_bare = [asc ''# proof log'', ex_header ''09:00-10:30'', ex_header ''11:00-11:30'',
               ex_where ''alpha'']"

text \<open>One block with two project lines and two duration lines.\<close>

definition log_twice :: "jsstr list" where
  "log_twice = [ex_header ''09:00-10:30'', ex_where ''alpha'', ex_duration ''30'',
                ex_where ''beta'', ex_duration ''45'']"

text \<open>A field line before the first header and a malformed action count inside a block.\<close>

definition log_noise :: "jsstr list" where
  "log_noise = [ex_where ''early'', ex_header ''09:00-10:30'', ex_where ''alpha'',
                ex_who ''abc'', ex_duration ''60'']"

text \<open>One session for a project named like a property of \<^verbatim>\<open>Object.prototype\<close>.\<close>

definition log_ctor :: "jsstr list" where
  "log_ctor = [ex_header ''09:00-09:30'', ex_where ''constructor'', ex_duration ''30'']"

text \<open>Two sessions of equal duration; the second project name is an array index.\<close>

definition log_tie :: "jsstr list" where
  "log_tie = [ex_header ''09:00-10:00'', ex_where ''alpha'', ex_duration ''60'',
              ex_header ''10:00-11:00'', ex_where ''7'', ex_duration ''60'']"

text \<open>A parsed session with project \<open>p\<close> and \<open>m\<close> minutes.\<close>

definition ex_session :: "jsstr \<Rightarrow> nat \<Rightarrow> session" where
  "ex_session p m =
     (new_session (asc ''2026-02-27''))\<lparr>durationMin := Fin m, project := Some p\<rparr>"

text \<open>One block with all four field lines.\<close>

definition log_full :: "jsstr list" where
  "log_full = [ex_header ''09:00-10:30'', ex_duration ''90'', ex_where ''alpha'', ex_who ''7'',
               ex_what ''3'' ''120'' ''5'', []]"

text \<open>Three sessions: two projects with 60 minutes each, then a project whose name is an
  array index, with 5 minutes.\<close>

definition log_mixed :: "session list" where
  "log_mixed = [ex_session (asc ''alpha'') 60, ex_session (asc ''beta'') 60,
                ex_session (asc ''7'') 5]"

section \<open>Properties of the numbers and of the date helpers\<close>

lemma bits_0 [simp]: "bits 0 = 0"
  by (simp add: bits.simps)

lemma bits_pos: "0 < n \<Longrightarrow> bits n = Suc (bits (n div 2))"
  by (subst bits.simps) simp

lemma bits_upper: "n < 2 ^ bits n"
proof (induction n rule: bits.induct)
  case (1 n)
  show ?case
  proof (cases "n = 0")
    case True
    then show ?thesis by simp
  next
    case False
    with 1 have "n div 2 < 2 ^ bits (n div 2)" by simp
    then have "n < 2 * 2 ^ bits (n div 2)" by linarith
    with False show ?thesis by (simp add: bits_pos)
  qed
qed

lemma bits_lower: "0 < n \<Longrightarrow> 2 ^ (bits n - 1) \<le> n"
proof (induction n rule: bits.induct)
  case (1 n)
  show ?case
  proof (cases "n div 2 = 0")
    case True
    with 1(2) have "n = 1" by linarith
    then show ?thesis by (simp add: bits_pos)
  next
    case False
    with 1 have "2 ^ (bits (n div 2) - 1) \<le> n div 2" by simp
    then have "2 * 2 ^ (bits (n div 2) - 1) \<le> n" by linarith
    moreover have "0 < bits (n div 2)" using False by (simp add: bits_pos)
    then have "2 * (2::nat) ^ (bits (n div 2) - 1) = 2 ^ bits (n div 2)"
      by (cases "bits (n div 2)") simp_all
    ultimately show ?thesis using 1(2) by (simp add: bits_pos)
  qed
qed

lemma bits_gt: "2 ^ k \<le> n \<Longrightarrow> k < bits n"
proof -
  assume "2 ^ k \<le> n"
  with bits_upper [of n] have "(2::nat) ^ k < 2 ^ bits n" by linarith
  then show ?thesis by simp
qed

lemma round_even_lower: "a div b \<le> round_even a b"
  by (simp add: round_even_def Let_def)

lemma round_even_upper: "0 < b \<Longrightarrow> 2 * b * round_even a b \<le> 2 * a + b"
proof -
  assume b: "0 < b"
  have a: "a = b * (a div b) + a mod b" by simp
  define q where "q = a div b"
  define r where "r = a mod b"
  have eq: "a = b * q + r" unfolding q_def r_def by simp
  have k: "round_even a b = q \<or> (round_even a b = q + 1 \<and> b \<le> 2 * r)"
    unfolding round_even_def Let_def q_def [symmetric] r_def [symmetric] by auto
  have "2 * b * q \<le> 2 * a + b" unfolding eq by (simp add: algebra_simps)
  moreover have "2 * b * (q + 1) \<le> 2 * a + b" if "b \<le> 2 * r"
    unfolding eq using that by (simp add: algebra_simps)
  ultimately show ?thesis using k by auto
qed

lemma floor_div60_exact:
  assumes "M < 9007199254740992"
  shows "floor_div60 (Fin M) = Fin (M div 60)"
proof (cases "M = 0")
  case True
  then show ?thesis by (simp add: floor_div60_def)
next
  case False
  define s where "s = bits (270215977642229759 div M)"
  define P :: nat where "P = 2 ^ s"
  define k where "k = round_even (M * P) 60"
  define q where "q = M div 60"
  define r where "r = M mod 60"
  have "16 * M \<le> 270215977642229759" using assms by simp
  then have "2 ^ 4 \<le> 270215977642229759 div M"
    using False by (simp add: less_eq_div_iff_mult_less_eq)
  then have "4 < s" unfolding s_def by (rule bits_gt)
  then have "(2::nat) ^ 5 \<le> 2 ^ s" by (intro power_increasing) simp_all
  then have P: "32 \<le> P" by (simp add: P_def)
  have M: "M = 60 * q + r" and r: "r < 60" by (simp_all add: q_def r_def)
  have MP: "M * P = 60 * (q * P) + r * P" by (simp add: M algebra_simps)
  have rP: "r * P \<le> 59 * P" using r by simp
  have "(60 * (q * P)) div 60 \<le> (M * P) div 60"
    unfolding MP by (intro div_le_mono) simp
  then have lo: "q * P \<le> k"
    using round_even_lower [of "M * P" 60] by (simp add: k_def)
  have "120 * k \<le> 2 * (M * P) + 60"
    using round_even_upper [of 60 "M * P"] by (simp add: k_def)
  with MP rP P have hi: "k < q * P + P" by linarith
  have "k div P = q"
    using lo hi by (intro div_nat_eqI) (simp_all add: algebra_simps)
  moreover have "floor_div60 (Fin M) = Fin (k div P)"
    using False assms by (simp add: floor_div60_def Let_def k_def P_def s_def)
  ultimately show ?thesis by (simp add: q_def)
qed

lemma to_double_small [simp]: "n < 9007199254740992 \<Longrightarrow> to_double n = Fin n"
  by (simp add: to_double_def)

lemma to_double_large:
  assumes "9007199254740992 \<le> c"
  shows "to_double c = Infinity \<or> (\<exists>v. to_double c = Fin v \<and> 9007199254740992 \<le> v)"
proof -
  define e where "e = bits c - 53"
  have "2 ^ 53 \<le> c" using assms by simp
  then have b: "53 < bits c" by (rule bits_gt)
  then have e: "0 < e" and be: "bits c - 1 = 52 + e" by (simp_all add: e_def)
  have "0 < c" using assms by simp
  from bits_lower [OF this] have "2 ^ (52 + e) \<le> c" unfolding be .
  then have "2 ^ 52 * 2 ^ e \<le> c" by (simp only: power_add)
  then have "2 ^ 52 \<le> c div 2 ^ e" by (simp add: less_eq_div_iff_mult_less_eq)
  with round_even_lower [of c "2 ^ e"] have k: "2 ^ 52 \<le> round_even c (2 ^ e)" by linarith
  have p: "(2::nat) \<le> 2 ^ e" using e by (cases e) simp_all
  from mult_le_mono [OF k p] have "9007199254740992 \<le> round_even c (2 ^ e) * 2 ^ e" by simp
  then show ?thesis
    using assms by (simp add: to_double_def Let_def e_def)
qed

lemma to_double_eq_small:
  assumes "x < 9007199254740992" and "to_double c = Fin x"
  shows "c = x"
proof (cases "c < 9007199254740992")
  case True
  with assms(2) show ?thesis by simp
next
  case False
  then have "9007199254740992 \<le> c" by simp
  from to_double_large [OF this] assms show ?thesis by auto
qed

lemma cand_small: "x < 9007199254740992 \<Longrightarrow> cand x p = Some c \<Longrightarrow> c = x"
  by (auto simp: cand_def Let_def split: if_splits dest: to_double_eq_small)

lemma shortest_from_small: "x < 9007199254740992 \<Longrightarrow> shortest_from x p = x"
proof (induction x p rule: shortest_from.induct)
  case (1 x p)
  show ?case
  proof (cases "p \<le> 1")
    case True
    then show ?thesis by (simp add: shortest_from.simps)
  next
    case False
    show ?thesis
    proof (cases "cand x p")
      case None
      with False 1 show ?thesis by (subst shortest_from.simps) simp
    next
      case (Some c)
      with cand_small [OF "1.prems"] have "c = x" by simp
      with False Some show ?thesis by (subst shortest_from.simps) simp
    qed
  qed
qed

lemma num_str_small: "n < 9007199254740992 \<Longrightarrow> num_str (Fin n) = dec n"
  by (simp add: num_str_def shortest_def shortest_from_small Let_def)


lemma dec_lt10: "n < 10 \<Longrightarrow> dec n = [48 + n]"
  by (simp add: dec.simps)

lemma dec_ge10: "10 \<le> n \<Longrightarrow> dec n = dec (n div 10) @ [48 + n mod 10]"
  by (subst dec.simps) simp

lemma top_pow10_lt10: "x < 10 \<Longrightarrow> top_pow10 x = 1"
  by (simp add: top_pow10.simps)

lemma top_pow10_ge10: "10 \<le> x \<Longrightarrow> top_pow10 x = 10 * top_pow10 (x div 10)"
  by (subst top_pow10.simps) simp

lemma shortest_from_stop: "p \<le> 1 \<Longrightarrow> shortest_from x p = x"
  by (simp add: shortest_from.simps)

lemma shortest_from_step:
  "1 < p \<Longrightarrow> shortest_from x p =
     (case cand x p of Some c \<Rightarrow> c | None \<Rightarrow> shortest_from x (p div 10))"
  by (subst shortest_from.simps) simp

lemmas num_eval = bits_pos dec_lt10 dec_ge10 top_pow10_lt10 top_pow10_ge10 shortest_from_stop
  shortest_from_step round_even_def to_double_def floor_div60_def mod60_def positive_def
  cand_def shortest_def exp_form_def num_str_def rem_str_def fmtHours_def parseInt_def
  digits_value_def Let_def


text \<open>
  Claim C8, amended. For every minute count \<open>M\<close> below \<open>2 ^ 53\<close> the duration
  formatter returns the decimal digits of \<open>M div 60\<close>, then \<open>h\<close> and a space, then
  the digits of \<open>M mod 60\<close> and \<open>m\<close> when \<open>M div 60\<close> is positive, and the digits of
  \<open>M\<close> followed by \<open>m\<close> otherwise.
\<close>

theorem fmtHours_safe:
  "M < 9007199254740992 \<Longrightarrow>
   fmtHours (Fin M) =
     (if M div 60 > 0 then dec (M div 60) @ asc ''h '' @ dec (M mod 60) @ asc ''m''
      else dec M @ asc ''m'')"
proof -
  assume M: "M < 9007199254740992"
  then have h: "M div 60 < 9007199254740992" by simp
  show ?thesis
    by (simp add: fmtHours_def Let_def floor_div60_exact [OF M] num_str_small [OF h]
        positive_def mod60_def rem_str_def)
qed

theorem fmtHours_safe_witness:
  "(90::nat) < 9007199254740992 \<and> fmtHours (Fin 90) = asc ''1h 30m''
   \<and> (45::nat) < 9007199254740992 \<and> fmtHours (Fin 45) = asc ''45m''"
  using fmtHours_safe [of 90] fmtHours_safe [of 45]
  by (simp add: dec_lt10 dec_ge10 asc_def)

text \<open>
  The claim as stated fails at \<open>M = 10 ^ 21\<close>, a minute count that \<^verbatim>\<open>parseInt\<close> gives
  for a run of 22 digits and a double represents: the quotient by 60 is rounded to the
  double \<open>16666666666666665984\<close>, which prints as \<^verbatim>\<open>16666666666666666000\<close>, while
  \<open>M div 60\<close> is \<open>16666666666666666666\<close>.
\<close>

theorem fmtHours_counterexample:
  "parseInt (asc ''1000000000000000000000'') = Fin 1000000000000000000000
   \<and> fmtHours (Fin 1000000000000000000000) = asc ''16666666666666666000h 40m''
   \<and> dec (1000000000000000000000 div 60) @ asc ''h '' @ dec (1000000000000000000000 mod 60)
        @ asc ''m'' = asc ''16666666666666666666h 40m''
   \<and> fmtHours (Fin 1000000000000000000000)
       \<noteq> dec (1000000000000000000000 div 60) @ asc ''h ''
           @ dec (1000000000000000000000 mod 60) @ asc ''m''"
proof -
  have p: "parseInt (asc ''1000000000000000000000'') = Fin 1000000000000000000000"
    by (simp add: num_eval asc_def cong: let_weak_cong)
  have h: "floor_div60 (Fin 1000000000000000000000) = Fin 16666666666666665984"
    by (simp add: num_eval cong: let_weak_cong)
  have s: "num_str (Fin 16666666666666665984) = asc ''16666666666666666000''"
    by (simp add: num_eval asc_def cong: let_weak_cong)
  have f: "fmtHours (Fin 1000000000000000000000) = asc ''16666666666666666000h 40m''"
    by (simp add: fmtHours_def Let_def h s positive_def mod60_def rem_str_def dec_lt10 dec_ge10
        asc_def)
  have d: "dec (1000000000000000000000 div 60) @ asc ''h '' @ dec (1000000000000000000000 mod 60)
        @ asc ''m'' = asc ''16666666666666666666h 40m''"
    by (simp add: dec_lt10 dec_ge10 asc_def)
  show ?thesis
    unfolding f d using p by (simp add: asc_def)
qed

lemma fmtHours_Infinity: "fmtHours Infinity = asc ''Infinityh NaNm''"
  by (simp add: num_eval asc_def)

lemma num_str_examples:
  "num_str (Fin 1000000000000000000000) = asc ''1e+21''"
  "num_str (to_double 9007199254740993) = asc ''9007199254740992''"
  by (simp_all add: num_eval asc_def cong: let_weak_cong)

section \<open>Properties of the parser\<close>

lemma strip_prefix_Some: "strip_prefix p s = Some r \<longleftrightarrow> s = p @ r"
  by (induction p s rule: strip_prefix.induct) auto

lemma DURATION_LINE_start:
  "DURATION_LINE x = Some v \<Longrightarrow> \<exists>r. x = 45 # 32 # 0x3044 # r"
  by (auto simp: DURATION_LINE_def asc_def strip_prefix_Some split: bind_splits)

lemma WHERE_LINE_start:
  "WHERE_LINE x = Some v \<Longrightarrow> \<exists>r. x = 45 # 32 # 0x3069 # r"
  by (auto simp: WHERE_LINE_def asc_def strip_prefix_Some split: bind_splits)

lemma WHO_LINE_start:
  "WHO_LINE x = Some v \<Longrightarrow> \<exists>r. x = 45 # 32 # 0x8AB0 # r"
  by (auto simp: WHO_LINE_def asc_def strip_prefix_Some split: bind_splits)

lemma WHAT_LINE_start:
  "WHAT_LINE x = Some v \<Longrightarrow> \<exists>r. x = 45 # 32 # 0x4F55 # r"
  by (auto simp: WHAT_LINE_def asc_def strip_prefix_Some split: bind_splits)

lemma WHERE_not_DURATION: "WHERE_LINE x = Some w \<Longrightarrow> DURATION_LINE x = None"
  using DURATION_LINE_start [of x] WHERE_LINE_start [of x w] by (cases "DURATION_LINE x") auto

lemma WHO_not_others: "WHO_LINE x = Some w \<Longrightarrow> DURATION_LINE x = None \<and> WHERE_LINE x = None"
  using DURATION_LINE_start [of x] WHERE_LINE_start [of x] WHO_LINE_start [of x w]
  by (cases "DURATION_LINE x"; cases "WHERE_LINE x") auto

lemma WHAT_not_others:
  "WHAT_LINE x = Some w \<Longrightarrow> DURATION_LINE x = None \<and> WHERE_LINE x = None \<and> WHO_LINE x = None"
  using DURATION_LINE_start [of x] WHERE_LINE_start [of x] WHO_LINE_start [of x] WHAT_LINE_start [of x w]
  by (cases "DURATION_LINE x"; cases "WHERE_LINE x"; cases "WHO_LINE x") auto

lemma field_line_date [simp]: "date (field_line x c) = date c"
  by (simp add: field_line_def split: option.splits prod.splits)

lemma push_current_append: "push_current out cur = out @ push_current [] cur"
  by (simp add: push_current_def split: option.splits)

lemma parse_loop_out: "parse_loop ls out cur = out @ parse_loop ls [] cur"
proof (induction ls arbitrary: out cur)
  case Nil
  show ?case by (simp add: push_current_append [of out])
next
  case (Cons raw rest)
  show ?case
  proof (cases "SESSION_HEADER (trim raw)")
    case None
    then show ?thesis
      using Cons.IH [of out] by (cases cur) (simp_all add: Let_def)
  next
    case (Some d)
    then show ?thesis
      using Cons.IH [of "push_current out cur"] Cons.IH [of "push_current [] cur"]
      by (simp add: Let_def push_current_append [of out])
  qed
qed

lemma parse_loop_dates:
  "map date (parse_loop ls out cur) =
     map date (push_current out cur) @ List.map_filter (\<lambda>raw. SESSION_HEADER (trim raw)) ls"
proof (induction ls arbitrary: out cur)
  case Nil
  show ?case by (simp add: List.map_filter_simps)
next
  case (Cons raw rest)
  show ?case
  proof (cases "SESSION_HEADER (trim raw)")
    case None
    then show ?thesis
      by (cases cur) (simp_all add: Let_def Cons.IH List.map_filter_simps push_current_def)
  next
    case (Some d)
    then show ?thesis
      by (simp add: Let_def Cons.IH List.map_filter_simps push_current_def new_session_def)
  qed
qed

text \<open>
  Claim C1. For every input text the parser returns as many sessions as there are lines
  whose trimmed form matches the header pattern, and the dates of the sessions are the
  dates of these headers in the order of the lines: every header starts a record, and the
  record it opens is pushed at the next header or at the end of the input.
\<close>

theorem parse_count:
  "length (parseProofLog content) =
     length (filter (\<lambda>raw. SESSION_HEADER (trim raw) \<noteq> None) (split_nl content))
   \<and> map date (parseProofLog content) =
     List.map_filter (\<lambda>raw. SESSION_HEADER (trim raw)) (split_nl content)"
proof -
  have d: "map date (parseProofLog content) =
     List.map_filter (\<lambda>raw. SESSION_HEADER (trim raw)) (split_nl content)"
    by (simp add: parseProofLog_def parse_loop_dates push_current_def)
  have "length (parseProofLog content) = length (map date (parseProofLog content))"
    by simp
  also have "\<dots> = length (filter (\<lambda>raw. SESSION_HEADER (trim raw) \<noteq> None) (split_nl content))"
    unfolding d by (simp add: List.map_filter_def)
  finally show ?thesis using d by simp
qed

lemma parse_loop_split_header:
  "SESSION_HEADER (trim h) = Some d \<Longrightarrow>
   parse_loop (pre @ h # rest) out cur = parse_loop pre out cur @ parse_loop (h # rest) [] None"
proof (induction pre arbitrary: out cur)
  case Nil
  then show ?case
    using parse_loop_out [of rest "push_current out cur" "Some (new_session d)"]
    by (simp add: Let_def push_current_def)
next
  case (Cons raw pre)
  then show ?case
    by (cases "SESSION_HEADER (trim raw)"; cases cur) (simp_all add: Let_def)
qed

lemma parse_loop_body:
  "list_all (\<lambda>l. SESSION_HEADER (trim l) = None) body \<Longrightarrow>
   parse_loop (body @ post) out (Some c) =
     parse_loop post out (Some (foldl (\<lambda>c raw. field_line (trim raw) c) c body))"
  by (induction body arbitrary: c) (simp_all add: Let_def)

lemma parse_loop_close:
  "(case post of [] \<Rightarrow> True | p # _ \<Rightarrow> SESSION_HEADER (trim p) \<noteq> None) \<Longrightarrow>
   parse_loop post [] (Some c) = c # parse_loop post [] None"
proof (cases post)
  case Nil
  then show ?thesis by (simp add: push_current_def)
next
  case (Cons p ps)
  assume "case post of [] \<Rightarrow> True | p # _ \<Rightarrow> SESSION_HEADER (trim p) \<noteq> None"
  with Cons obtain d where d: "SESSION_HEADER (trim p) = Some d" by auto
  show ?thesis
    using parse_loop_out [of ps "[c]" "Some (new_session d)"]
    by (simp add: Cons d Let_def push_current_def)
qed

lemma parse_loop_block:
  assumes "SESSION_HEADER (trim h) = Some d"
    and "list_all (\<lambda>l. SESSION_HEADER (trim l) = None) body"
    and "case post of [] \<Rightarrow> True | p # _ \<Rightarrow> SESSION_HEADER (trim p) \<noteq> None"
  shows "parse_loop (pre @ h # body @ post) [] None =
           parse_loop pre [] None @ block_session d body # parse_loop post [] None"
proof -
  have "parse_loop (h # body @ post) [] None = parse_loop (body @ post) [] (Some (new_session d))"
    using assms(1) by (simp add: Let_def push_current_def)
  also have "\<dots> = parse_loop post [] (Some (block_session d body))"
    using assms(2) by (simp add: parse_loop_body block_session_def)
  also have "\<dots> = block_session d body # parse_loop post [] None"
    using assms(3) by (rule parse_loop_close)
  finally show ?thesis
    using assms(1) by (simp add: parse_loop_split_header)
qed

lemma parse_loop_length:
  "length (parse_loop ls [] None) = length (filter (\<lambda>raw. SESSION_HEADER (trim raw) \<noteq> None) ls)"
proof -
  have "length (parse_loop ls [] None) = length (map date (parse_loop ls [] None))" by simp
  also have "\<dots> = length (filter (\<lambda>raw. SESSION_HEADER (trim raw) \<noteq> None) ls)"
    unfolding parse_loop_dates by (simp add: List.map_filter_def push_current_def)
  finally show ?thesis .
qed

lemma parse_loop_block_nth:
  assumes "SESSION_HEADER (trim h) = Some d"
    and "list_all (\<lambda>l. SESSION_HEADER (trim l) = None) body"
    and "case post of [] \<Rightarrow> True | p # _ \<Rightarrow> SESSION_HEADER (trim p) \<noteq> None"
  shows "parse_loop (pre @ h # body @ post) [] None
           ! length (filter (\<lambda>raw. SESSION_HEADER (trim raw) \<noteq> None) pre) = block_session d body"
  using parse_loop_block [OF assms, of pre] parse_loop_length [of pre]
  by (simp add: nth_append)

lemma field_line_durationMin:
  "durationMin (field_line x c) = (case DURATION_LINE x of None \<Rightarrow> durationMin c | Some v \<Rightarrow> parseInt v)"
  by (simp add: field_line_def split: option.splits prod.splits)

lemma field_line_project:
  "project (field_line x c) = (case WHERE_LINE x of None \<Rightarrow> project c | Some w \<Rightarrow> Some (trim w))"
  using WHERE_not_DURATION [of x]
  by (auto simp add: field_line_def split: option.splits prod.splits)

lemma field_line_ccActions:
  "ccActions (field_line x c) = (case WHO_LINE x of None \<Rightarrow> ccActions c | Some v \<Rightarrow> parseInt v)"
  using WHO_not_others [of x]
  by (auto simp add: field_line_def split: option.splits prod.splits)

lemma field_line_what:
  "(filesChanged (field_line x c), linesAdded (field_line x c), linesRemoved (field_line x c)) =
     (case WHAT_LINE x of None \<Rightarrow> (filesChanged c, linesAdded c, linesRemoved c)
      | Some (f, a, r) \<Rightarrow> (parseInt f, parseInt a, parseInt r))"
  using WHAT_not_others [of x]
  by (auto simp add: field_line_def split: option.splits prod.splits)

lemma foldl_last_match:
  assumes step: "\<And>x c. g (field_line x c) = (case f x of None \<Rightarrow> g c | Some v \<Rightarrow> val v)"
  shows "g (foldl (\<lambda>c raw. field_line (trim raw) c) c body) =
           (case last_match f body of None \<Rightarrow> g c | Some v \<Rightarrow> val v)"
proof (induction body arbitrary: c)
  case Nil
  show ?case by simp
next
  case (Cons raw rest)
  show ?case
    by (simp add: Cons.IH step split: option.splits)
qed

lemma block_session_fields:
  "durationMin (block_session d body) =
     (case last_match DURATION_LINE body of None \<Rightarrow> Fin 0 | Some v \<Rightarrow> parseInt v)"
  "project (block_session d body) = map_option trim (last_match WHERE_LINE body)"
  "ccActions (block_session d body) =
     (case last_match WHO_LINE body of None \<Rightarrow> Fin 0 | Some v \<Rightarrow> parseInt v)"
  "(filesChanged (block_session d body), linesAdded (block_session d body),
    linesRemoved (block_session d body)) =
     (case last_match WHAT_LINE body of None \<Rightarrow> (Fin 0, Fin 0, Fin 0)
      | Some (f, a, r) \<Rightarrow> (parseInt f, parseInt a, parseInt r))"
  "date (block_session d body) = d"
proof -
  show "durationMin (block_session d body) =
     (case last_match DURATION_LINE body of None \<Rightarrow> Fin 0 | Some v \<Rightarrow> parseInt v)"
    unfolding block_session_def
    using foldl_last_match [where g = durationMin and f = DURATION_LINE and val = parseInt, OF field_line_durationMin]
    by (simp add: new_session_def split: option.splits)
  show "project (block_session d body) = map_option trim (last_match WHERE_LINE body)"
    unfolding block_session_def
    using foldl_last_match [where g = project and f = WHERE_LINE and val = "\<lambda>w. Some (trim w)", OF field_line_project]
    by (simp add: new_session_def split: option.splits)
  show "ccActions (block_session d body) =
     (case last_match WHO_LINE body of None \<Rightarrow> Fin 0 | Some v \<Rightarrow> parseInt v)"
    unfolding block_session_def
    using foldl_last_match [where g = ccActions and f = WHO_LINE and val = parseInt, OF field_line_ccActions]
    by (simp add: new_session_def split: option.splits)
  show "(filesChanged (block_session d body), linesAdded (block_session d body),
    linesRemoved (block_session d body)) =
     (case last_match WHAT_LINE body of None \<Rightarrow> (Fin 0, Fin 0, Fin 0)
      | Some (f, a, r) \<Rightarrow> (parseInt f, parseInt a, parseInt r))"
    unfolding block_session_def
    using foldl_last_match [where g = "\<lambda>c. (filesChanged c, linesAdded c, linesRemoved c)"
        and f = WHAT_LINE and val = "\<lambda>(f, a, r). (parseInt f, parseInt a, parseInt r)"]
      field_line_what
    by (simp add: new_session_def split: option.splits prod.splits)
  show "date (block_session d body) = d"
    unfolding block_session_def
    by (induction body rule: rev_induct) (simp_all add: new_session_def)
qed

lemma last_match_None:
  "last_match f body = None \<longleftrightarrow> list_all (\<lambda>raw. f (trim raw) = None) body"
  by (induction body) (auto split: option.splits)

lemmas ex_defs = ex_header_def ex_where_def ex_who_def ex_what_def ex_duration_def asc_def

lemmas parse_defs = is_digit_def is_space_def is_line_terminator_def trim_def
  parseInt_def digits_value_def digitsN_def digits1_def SESSION_HEADER_def WHERE_LINE_def WHO_LINE_def
  WHAT_LINE_def DURATION_tail_def DURATION_LINE_def new_session_def field_line_def
  push_current_def parseProofLog_def Let_def

lemma last_match_last:
  "f (trim l) = Some v \<Longrightarrow> list_all (\<lambda>raw. f (trim raw) = None) b2 \<Longrightarrow>
   last_match f (b1 @ l # b2) = Some v"
  by (induction b1) (simp_all add: last_match_None [symmetric])

lemma parseProofLog_block:
  assumes "is_block content pre h body post d"
  shows "parseProofLog content ! block_index pre = block_session d body"
    and "block_index pre < length (parseProofLog content)"
proof -
  from assms have l: "split_nl content = pre @ h # body @ post"
    and h: "SESSION_HEADER (trim h) = Some d"
    and b: "list_all (\<lambda>raw. SESSION_HEADER (trim raw) = None) body"
    and p: "case post of [] \<Rightarrow> True | p # _ \<Rightarrow> SESSION_HEADER (trim p) \<noteq> None"
    by (simp_all add: is_block_def)
  show "parseProofLog content ! block_index pre = block_session d body"
    unfolding parseProofLog_def l block_index_def
    using h b p by (rule parse_loop_block_nth)
  show "block_index pre < length (parseProofLog content)"
    unfolding parseProofLog_def l block_index_def
    using parse_loop_block [OF h b p, of pre] parse_loop_length [of pre] by simp
qed

text \<open>
  Claim C6. In the session emitted for a block, the duration is zero unless a line of the
  block matches the duration pattern, the project is absent unless a line matches the
  project pattern, the action count is zero unless a line matches the action pattern, and
  the three file and line counts are zero unless a line matches the composite pattern; a
  header with no line after it gives the all-zero session with absent project.
\<close>

theorem fields_default:
  assumes "is_block content pre h body post d"
  shows "block_index pre < length (parseProofLog content) \<and>
    (let s = parseProofLog content ! block_index pre in
      (list_all (\<lambda>raw. DURATION_LINE (trim raw) = None) body \<longrightarrow> durationMin s = Fin 0) \<and>
      (list_all (\<lambda>raw. WHERE_LINE (trim raw) = None) body \<longrightarrow> project s = None) \<and>
      (list_all (\<lambda>raw. WHO_LINE (trim raw) = None) body \<longrightarrow> ccActions s = Fin 0) \<and>
      (list_all (\<lambda>raw. WHAT_LINE (trim raw) = None) body \<longrightarrow>
         filesChanged s = Fin 0 \<and> linesAdded s = Fin 0 \<and> linesRemoved s = Fin 0) \<and>
      (body = [] \<longrightarrow> s = new_session d))"
proof -
  note s = parseProofLog_block(1) [OF assms]
  have "list_all (\<lambda>raw. DURATION_LINE (trim raw) = None) body \<Longrightarrow>
      durationMin (block_session d body) = Fin 0"
    by (simp add: block_session_fields(1) last_match_None [symmetric])
  moreover have "list_all (\<lambda>raw. WHERE_LINE (trim raw) = None) body \<Longrightarrow>
      project (block_session d body) = None"
    by (simp add: block_session_fields(2) last_match_None [symmetric])
  moreover have "list_all (\<lambda>raw. WHO_LINE (trim raw) = None) body \<Longrightarrow>
      ccActions (block_session d body) = Fin 0"
    by (simp add: block_session_fields(3) last_match_None [symmetric])
  moreover have "list_all (\<lambda>raw. WHAT_LINE (trim raw) = None) body \<Longrightarrow>
      filesChanged (block_session d body) = Fin 0 \<and> linesAdded (block_session d body) = Fin 0
      \<and> linesRemoved (block_session d body) = Fin 0"
    using block_session_fields(4) [of d body] by (simp add: last_match_None [symmetric])
  moreover have "body = [] \<Longrightarrow> block_session d body = new_session d"
    by (simp add: block_session_def)
  ultimately show ?thesis
    using parseProofLog_block(2) [OF assms] by (simp add: s Let_def)
qed

theorem fields_default_witness:
  "is_block (join [10] log_bare) [asc ''# proof log''] (ex_header ''09:00-10:30'') []
      [ex_header ''11:00-11:30'', ex_where ''alpha''] (asc ''2026-02-27'')
   \<and> parseProofLog (join [10] log_bare) ! 0 =
      \<lparr>date = asc ''2026-02-27'', durationMin = Fin 0, project = None, ccActions = Fin 0,
       filesChanged = Fin 0, linesAdded = Fin 0, linesRemoved = Fin 0\<rparr>
   \<and> is_block (join [10] log_bare) [asc ''# proof log'', ex_header ''09:00-10:30'']
      (ex_header ''11:00-11:30'') [ex_where ''alpha''] [] (asc ''2026-02-27'')
   \<and> list_all (\<lambda>raw. DURATION_LINE (trim raw) = None) [ex_where ''alpha'']
   \<and> durationMin (parseProofLog (join [10] log_bare) ! 1) = Fin 0
   \<and> project (parseProofLog (join [10] log_bare) ! 1) = Some (asc ''alpha'')"
proof -
  have b: "is_block (join [10] log_bare) [asc ''# proof log''] (ex_header ''09:00-10:30'') []
      [ex_header ''11:00-11:30'', ex_where ''alpha''] (asc ''2026-02-27'')"
    by (simp add: is_block_def log_bare_def ex_defs parse_defs)
  have i: "block_index [asc ''# proof log''] = 0"
    by (simp add: block_index_def ex_defs parse_defs)
  have b': "is_block (join [10] log_bare) [asc ''# proof log'', ex_header ''09:00-10:30'']
      (ex_header ''11:00-11:30'') [ex_where ''alpha''] [] (asc ''2026-02-27'')"
    by (simp add: is_block_def log_bare_def ex_defs parse_defs)
  have i': "block_index [asc ''# proof log'', ex_header ''09:00-10:30''] = 1"
    by (simp add: block_index_def ex_defs parse_defs)
  have n: "list_all (\<lambda>raw. DURATION_LINE (trim raw) = None) [ex_where ''alpha'']"
    by (simp add: ex_defs parse_defs)
  have p: "project (parseProofLog (join [10] log_bare) ! 1) = Some (asc ''alpha'')"
    by (simp add: log_bare_def ex_defs parse_defs)
  have "parseProofLog (join [10] log_bare) ! 0 = new_session (asc ''2026-02-27'')"
    using fields_default [OF b] by (simp add: i Let_def)
  moreover have "durationMin (parseProofLog (join [10] log_bare) ! 1) = Fin 0"
    using fields_default [OF b'] n by (simp add: i' Let_def)
  ultimately show ?thesis
    using b b' n p by (simp add: new_session_def)
qed

text \<open>
  Claim C10. Within one block, when \<open>l\<close> is the last line that matches a field
  pattern (no later line of the block matches it, earlier lines may), the emitted
  session carries the value captured from \<open>l\<close>, for each of the four patterns.
\<close>

theorem last_field_line_wins:
  assumes "is_block content pre h (b1 @ l # b2) post d"
  shows "block_index pre < length (parseProofLog content) \<and>
    (let s = parseProofLog content ! block_index pre in
      (DURATION_LINE (trim l) = Some v \<and> list_all (\<lambda>raw. DURATION_LINE (trim raw) = None) b2
         \<longrightarrow> durationMin s = parseInt v) \<and>
      (WHERE_LINE (trim l) = Some w \<and> list_all (\<lambda>raw. WHERE_LINE (trim raw) = None) b2
         \<longrightarrow> project s = Some (trim w)) \<and>
      (WHO_LINE (trim l) = Some n \<and> list_all (\<lambda>raw. WHO_LINE (trim raw) = None) b2
         \<longrightarrow> ccActions s = parseInt n) \<and>
      (WHAT_LINE (trim l) = Some (f, a, r) \<and> list_all (\<lambda>raw. WHAT_LINE (trim raw) = None) b2
         \<longrightarrow> filesChanged s = parseInt f \<and> linesAdded s = parseInt a
              \<and> linesRemoved s = parseInt r))"
proof -
  let ?body = "b1 @ l # b2"
  note s = parseProofLog_block(1) [OF assms]
  have "durationMin (block_session d ?body) = parseInt v"
    if "DURATION_LINE (trim l) = Some v" "list_all (\<lambda>raw. DURATION_LINE (trim raw) = None) b2"
    using last_match_last [OF that, of b1] by (simp add: block_session_fields(1))
  moreover have "project (block_session d ?body) = Some (trim w)"
    if "WHERE_LINE (trim l) = Some w" "list_all (\<lambda>raw. WHERE_LINE (trim raw) = None) b2"
    using last_match_last [OF that, of b1] by (simp add: block_session_fields(2))
  moreover have "ccActions (block_session d ?body) = parseInt n"
    if "WHO_LINE (trim l) = Some n" "list_all (\<lambda>raw. WHO_LINE (trim raw) = None) b2"
    using last_match_last [OF that, of b1] by (simp add: block_session_fields(3))
  moreover have "filesChanged (block_session d ?body) = parseInt f
      \<and> linesAdded (block_session d ?body) = parseInt a
      \<and> linesRemoved (block_session d ?body) = parseInt r"
    if "WHAT_LINE (trim l) = Some (f, a, r)" "list_all (\<lambda>raw. WHAT_LINE (trim raw) = None) b2"
    using last_match_last [OF that, of b1] block_session_fields(4) [of d ?body] by simp
  ultimately show ?thesis
    using parseProofLog_block(2) [OF assms] by (simp add: s Let_def)
qed

theorem last_field_line_wins_witness:
  "is_block (join [10] log_twice) [] (ex_header ''09:00-10:30'')
      ([ex_where ''alpha'', ex_duration ''30'', ex_where ''beta''] @ ex_duration ''45'' # []) []
      (asc ''2026-02-27'')
   \<and> DURATION_LINE (trim (ex_duration ''30'')) = Some (asc ''30'')
   \<and> DURATION_LINE (trim (ex_duration ''45'')) = Some (asc ''45'')
   \<and> WHERE_LINE (trim (ex_where ''alpha'')) = Some (asc ''alpha'')
   \<and> WHERE_LINE (trim (ex_where ''beta'')) = Some (asc ''beta'')
   \<and> durationMin (parseProofLog (join [10] log_twice) ! 0) = Fin 45
   \<and> project (parseProofLog (join [10] log_twice) ! 0) = Some (asc ''beta'')"
proof -
  have b: "is_block (join [10] log_twice) [] (ex_header ''09:00-10:30'')
      ([ex_where ''alpha'', ex_duration ''30'', ex_where ''beta''] @ ex_duration ''45'' # []) []
      (asc ''2026-02-27'')"
    by (simp add: is_block_def log_twice_def ex_defs parse_defs)
  then have b': "is_block (join [10] log_twice) [] (ex_header ''09:00-10:30'')
      ([ex_where ''alpha'', ex_duration ''30''] @ ex_where ''beta'' # [ex_duration ''45'']) []
      (asc ''2026-02-27'')"
    by simp
  have m: "DURATION_LINE (trim (ex_duration ''30'')) = Some (asc ''30'')"
      "DURATION_LINE (trim (ex_duration ''45'')) = Some (asc ''45'')"
      "WHERE_LINE (trim (ex_where ''alpha'')) = Some (asc ''alpha'')"
      "WHERE_LINE (trim (ex_where ''beta'')) = Some (asc ''beta'')"
      "WHERE_LINE (trim (ex_duration ''45'')) = None"
    by (simp_all add: ex_defs parse_defs)
  have v: "parseInt (asc ''45'') = Fin 45" "trim (asc ''beta'') = asc ''beta''"
    by (simp_all add: asc_def parseInt_def digits_value_def trim_def is_space_def
        is_line_terminator_def)
  have "durationMin (parseProofLog (join [10] log_twice) ! 0) = Fin 45"
    using last_field_line_wins [OF b, of "asc ''45''"] m
    by (simp add: block_index_def Let_def v)
  moreover have "project (parseProofLog (join [10] log_twice) ! 0) = Some (asc ''beta'')"
    using last_field_line_wins [OF b', of _ "asc ''beta''"] m
    by (simp add: block_index_def Let_def v)
  ultimately show ?thesis
    using b m by simp
qed

lemma field_line_unrecognised: "unrecognised x \<Longrightarrow> field_line x c = c"
  by (simp add: unrecognised_def field_line_def)

lemma parse_loop_skip:
  "unrecognised (trim l) \<Longrightarrow> parse_loop (xs @ l # ys) out cur = parse_loop (xs @ ys) out cur"
proof (induction xs arbitrary: out cur)
  case Nil
  then have "SESSION_HEADER (trim l) = None" by (simp add: unrecognised_def)
  with Nil show ?case
    by (cases cur) (simp_all add: Let_def field_line_unrecognised)
next
  case (Cons raw xs)
  then show ?case
    by (cases "SESSION_HEADER (trim raw)"; cases cur) (simp_all add: Let_def)
qed

lemma parse_loop_before_header:
  "list_all (\<lambda>raw. SESSION_HEADER (trim raw) = None) pre \<Longrightarrow>
   parse_loop (pre @ rest) out None = parse_loop rest out None"
  by (induction pre) (simp_all add: Let_def)

text \<open>
  Claim C7. A line that no pattern matches (a malformed field line is one) does not change
  the parsed sessions: the result is what the loop gives on the other lines, which are all
  still processed. Lines before the first header do not change the result either. The
  parser has no failing path: it returns a list for every text.
\<close>

theorem ignored_lines:
  "(split_nl content = xs @ l # ys \<and> unrecognised (trim l)
      \<longrightarrow> parseProofLog content = parse_loop (xs @ ys) [] None)
   \<and> (split_nl content = pre @ rest \<and> list_all (\<lambda>raw. SESSION_HEADER (trim raw) = None) pre
      \<longrightarrow> parseProofLog content = parse_loop rest [] None)"
  by (simp add: parseProofLog_def parse_loop_skip parse_loop_before_header)

theorem ignored_lines_witness:
  "split_nl (join [10] log_noise) =
      [ex_where ''early'', ex_header ''09:00-10:30'', ex_where ''alpha''] @ ex_who ''abc''
        # [ex_duration ''60'']
   \<and> unrecognised (trim (ex_who ''abc''))
   \<and> split_nl (join [10] log_noise) = [ex_where ''early''] @ tl log_noise
   \<and> list_all (\<lambda>raw. SESSION_HEADER (trim raw) = None) [ex_where ''early'']
   \<and> parseProofLog (join [10] log_noise) =
       parse_loop ([ex_where ''early'', ex_header ''09:00-10:30'', ex_where ''alpha'']
                   @ [ex_duration ''60'']) [] None
   \<and> parseProofLog (join [10] log_noise) = parse_loop (tl log_noise) [] None
   \<and> parseProofLog (join [10] log_noise) =
       [\<lparr>date = asc ''2026-02-27'', durationMin = Fin 60, project = Some (asc ''alpha''),
         ccActions = Fin 0, filesChanged = Fin 0, linesAdded = Fin 0, linesRemoved = Fin 0\<rparr>]"
proof -
  have s: "split_nl (join [10] log_noise) =
      [ex_where ''early'', ex_header ''09:00-10:30'', ex_where ''alpha''] @ ex_who ''abc''
        # [ex_duration ''60'']"
    by (simp add: log_noise_def ex_defs)
  have u: "unrecognised (trim (ex_who ''abc''))"
    by (simp add: unrecognised_def ex_defs parse_defs)
  have s': "split_nl (join [10] log_noise) = [ex_where ''early''] @ tl log_noise"
    by (simp add: log_noise_def ex_defs)
  have n: "list_all (\<lambda>raw. SESSION_HEADER (trim raw) = None) [ex_where ''early'']"
    by (simp add: ex_defs parse_defs)
  have r: "parseProofLog (join [10] log_noise) =
       [\<lparr>date = asc ''2026-02-27'', durationMin = Fin 60, project = Some (asc ''alpha''),
         ccActions = Fin 0, filesChanged = Fin 0, linesAdded = Fin 0, linesRemoved = Fin 0\<rparr>]"
    by (simp add: log_noise_def ex_defs parse_defs)
  have "parseProofLog (join [10] log_noise) =
       parse_loop ([ex_where ''early'', ex_header ''09:00-10:30'', ex_where ''alpha'']
                   @ [ex_duration ''60'']) [] None"
    using ignored_lines [of "join [10] log_noise"
        "[ex_where ''early'', ex_header ''09:00-10:30'', ex_where ''alpha'']" "ex_who ''abc''"
        "[ex_duration ''60'']"] s u by blast
  moreover have "parseProofLog (join [10] log_noise) = parse_loop (tl log_noise) [] None"
    using ignored_lines [of "join [10] log_noise" _ _ _ "[ex_where ''early'']" "tl log_noise"] s' n
    by blast
  ultimately show ?thesis
    using s u s' n r by blast
qed

section \<open>Properties of the aggregation and of the formatters\<close>

lemmas agg_defs = aggregate_def add_session_def init_state_def no_bucket_def bump_def
  inherited_def Object_prototype_names_def load_def ex_session_def new_session_def
  sortedProjects_def entries_def is_array_index_def is_digit_def digits_value_def desc_key_def
  Let_def

text \<open>
  Claim C5. For every date and every state of the aggregation, the string returned by the
  tweet formatter has at most 280 code units; when the joined parts have more than 280,
  it is their first 277 code units followed by three dots, 280 code units in all.
\<close>

theorem tweet_length:
  "length (formatTweet toFixed1 targetDate st) \<le> 280
   \<and> (length (join [10] (tweet_parts toFixed1 targetDate st)) > 280 \<longrightarrow>
        formatTweet toFixed1 targetDate st
          = take 277 (join [10] (tweet_parts toFixed1 targetDate st)) @ asc ''...''
        \<and> length (formatTweet toFixed1 targetDate st) = 280)"
  by (simp add: formatTweet_def Let_def asc_def)

lemmas fmt_defs = tweet_parts_def tweet_work_parts_def tweet_ghost_parts_def tweet_project_def
  ghost_def fmtHours_def floor_div60_exact num_str_small positive_def mod60_def rem_str_def
  dec_lt10 dec_ge10 plain_lines_def plain_work_lines_def
  plain_ghost_lines_def plain_project_def continuing_def label_def FOOTER_def formatPlain_def
  slack_lines_def slack_work_lines_def slack_ghost_lines_def slack_project_def formatSlack_def

lemma full_block_report:
  "parseProofLog (join [10] log_full) =
     [\<lparr>date = asc ''2026-02-27'', durationMin = Fin 90, project = Some (asc ''alpha''),
       ccActions = Fin 7, filesChanged = Fin 3, linesAdded = Fin 120, linesRemoved = Fin 5\<rparr>]"
  "plain_lines num_str (asc ''2026-02-27'') (asc ''Fri'') (load (Content (join [10] log_full))) ! 3
     = asc ''  '' @ [0x2022] @ asc '' alpha '' @ [0x2014] @ asc '' 1h 30m | 1 sessions | +120 lines''"
  "plain_lines num_str (asc ''2026-02-27'') (asc ''Fri'') (load (Content (join [10] log_full))) ! 5
     = [0xD83D, 0xDCCA] @ asc '' Total: 1h 30m | 1 sessions | +120 lines | 3 files''"
proof -
  show p: "parseProofLog (join [10] log_full) =
     [\<lparr>date = asc ''2026-02-27'', durationMin = Fin 90, project = Some (asc ''alpha''),
       ccActions = Fin 7, filesChanged = Fin 3, linesAdded = Fin 120, linesRemoved = Fin 5\<rparr>]"
    by (simp add: log_full_def ex_defs parse_defs)
  have l: "load (Content (join [10] log_full)) =
     \<lparr>isGhostDay = False,
      byProject = [(asc ''alpha'', \<lparr>minutes = Fin 90, sessions = Fin 1, linesAdded_p = Fin 120, files = Fin 3\<rparr>)],
      totalMinutes = Fin 90, totalSessions = Fin 1, totalLines = Fin 120, totalFiles = Fin 3, totalActions = Fin 7\<rparr>"
    unfolding load_def logfile.case p by (simp add: agg_defs asc_def)
  show "plain_lines num_str (asc ''2026-02-27'') (asc ''Fri'') (load (Content (join [10] log_full))) ! 3
     = asc ''  '' @ [0x2022] @ asc '' alpha '' @ [0x2014] @ asc '' 1h 30m | 1 sessions | +120 lines''"
    unfolding l by (simp add: fmt_defs agg_defs asc_def)
  show "plain_lines num_str (asc ''2026-02-27'') (asc ''Fri'') (load (Content (join [10] log_full))) ! 5
     = [0xD83D, 0xDCCA] @ asc '' Total: 1h 30m | 1 sessions | +120 lines | 3 files''"
    unfolding l by (simp add: fmt_defs agg_defs asc_def)
qed

theorem tweet_length_witness:
  "length (join [10] (tweet_parts num_str (asc ''2026-02-27'')
      (aggregate [ex_session (asc ''a'' @ replicate 299 97) 90]))) = 377
   \<and> length (formatTweet num_str (asc ''2026-02-27'')
      (aggregate [ex_session (asc ''a'' @ replicate 299 97) 90])) = 280"
proof -
  have l: "length (join [10] (tweet_parts num_str (asc ''2026-02-27'')
      (aggregate [ex_session (asc ''a'' @ replicate 299 97) 90]))) = 377"
    by (simp add: fmt_defs agg_defs asc_def)
  show ?thesis
    using tweet_length [of num_str "asc ''2026-02-27''"
        "aggregate [ex_session (asc ''a'' @ replicate 299 97) 90]"] l
    by (simp add: asc_def)
qed




lemma add_session_skip: "\<not> retained s \<Longrightarrow> add_session st s = st"
  by (auto simp: retained_def add_session_def split: option.splits)

lemma add_session_totals:
  "retained s \<Longrightarrow> totalSessions (add_session st s) = js_add (totalSessions st) (Fin 1)"
  "retained s \<Longrightarrow> totalMinutes (add_session st s) = js_add (totalMinutes st) (durationMin s)"
  "retained s \<Longrightarrow> totalLines (add_session st s) = js_add (totalLines st) (linesAdded s)"
  "retained s \<Longrightarrow> totalFiles (add_session st s) = js_add (totalFiles st) (filesChanged s)"
  "retained s \<Longrightarrow> totalActions (add_session st s) = js_add (totalActions st) (ccActions s)"
  "isGhostDay (add_session st s) = isGhostDay st"
  by (auto simp: retained_def add_session_def Let_def split: option.splits)

lemma js_add_one_nonzero: "js_add x (Fin 1) \<noteq> Fin 0"
proof (cases x)
  case (Fin a)
  show ?thesis
  proof (cases "a + 1 < 9007199254740992")
    case True
    with Fin show ?thesis by simp
  next
    case False
    then have "9007199254740992 \<le> a + 1" by simp
    from to_double_large [OF this] Fin show ?thesis by auto
  qed
qed simp

lemma foldl_sessions_zero:
  "totalSessions (foldl add_session st ss) = Fin 0
     \<longleftrightarrow> totalSessions st = Fin 0 \<and> filter retained ss = []"
proof (induction ss arbitrary: st)
  case Nil
  show ?case by simp
next
  case (Cons s ss)
  show ?case
  proof (cases "retained s")
    case True
    then show ?thesis
      using js_add_one_nonzero [of "totalSessions st"]
      by (simp add: Cons.IH add_session_totals)
  next
    case False
    then show ?thesis
      by (simp add: Cons.IH add_session_skip)
  qed
qed

lemma foldl_isGhostDay: "isGhostDay (foldl add_session st ss) = isGhostDay st"
  by (induction ss arbitrary: st) (simp_all add: add_session_totals)

lemma aggregate_sessions_zero:
  "totalSessions (aggregate ss) = Fin 0 \<longleftrightarrow> filter retained ss = []"
  by (simp add: aggregate_def foldl_sessions_zero init_state_def)

lemma aggregate_isGhostDay: "isGhostDay (aggregate ss) = False"
  by (simp add: aggregate_def foldl_isGhostDay init_state_def)

lemma aggregate_snoc: "aggregate (ss @ [s]) = add_session (aggregate ss) s"
  by (simp add: aggregate_def)

lemma bump_keys [simp]: "map fst (bump p s bp) = map fst bp"
  by (induction bp) (auto simp: bump_def)

lemma bump_absent: "p \<notin> set (map fst bp) \<Longrightarrow> bump p s bp = bp"
  by (induction bp) (auto simp: bump_def)

lemma no_bucket_iff: "no_bucket bp p \<longleftrightarrow> p \<notin> set (map fst bp) \<and> \<not> inherited p"
  by (auto simp: no_bucket_def map_of_eq_None_iff)

lemma add_session_keys:
  "map fst (byProject (add_session st s)) =
     map fst (byProject st) @
       (if listed s \<and> the (project s) \<notin> set (map fst (byProject st)) then [the (project s)] else [])"
  by (auto simp: add_session_def listed_def Let_def no_bucket_iff split: option.splits)

lemma first_seen_set [simp]: "set (first_seen xs) = set xs"
  by (induction xs) auto

lemma first_seen_snoc:
  "first_seen (xs @ [x]) = first_seen xs @ (if x \<in> set xs then [] else [x])"
  by (induction xs) auto

lemma aggregate_keys:
  "map fst (byProject (aggregate ss)) = first_seen (map (\<lambda>s. the (project s)) (filter listed ss))"
proof (induction ss rule: rev_induct)
  case Nil
  show ?case by (simp add: aggregate_def init_state_def)
next
  case (snoc s ss)
  show ?case
  proof (cases "listed s")
    case True
    then show ?thesis
      by (simp add: aggregate_snoc add_session_keys snoc.IH first_seen_snoc)
  next
    case False
    then show ?thesis
      by (simp add: aggregate_snoc add_session_keys snoc.IH)
  qed
qed

lemma first_seen_distinct: "distinct (first_seen xs)"
  by (induction xs) auto

lemma aggregate_keys_distinct: "distinct (map fst (byProject (aggregate ss)))"
  by (simp add: aggregate_keys first_seen_distinct)

lemma aggregate_keys_not_inherited:
  "k \<in> set (map fst (byProject (aggregate ss))) \<Longrightarrow> \<not> inherited k"
  unfolding aggregate_keys by (auto simp: listed_def split: option.splits)

lemma trim_last: "trim s \<noteq> [] \<Longrightarrow> \<not> is_space (last (trim s))"
proof -
  assume n: "trim s \<noteq> []"
  let ?v = "dropWhile is_space (rev (dropWhile is_space s))"
  from n have v: "?v \<noteq> []" by (simp add: trim_def)
  then have "\<not> is_space (hd ?v)" by (rule hd_dropWhile)
  moreover have "last (trim s) = hd ?v"
    using v by (simp add: trim_def last_rev)
  ultimately show ?thesis by simp
qed

lemma trim_nonempty:
  assumes "w \<noteq> []" and "\<not> is_space (last w)"
  shows "trim w \<noteq> []"
proof -
  let ?u = "dropWhile is_space w"
  have "last w \<in> set w" using assms(1) by simp
  with assms(2) have u: "?u \<noteq> []" by (auto simp: dropWhile_eq_Nil_conv)
  have "w = takeWhile is_space w @ ?u" by simp
  then have "last w = last ?u" using u by (metis last_appendR)
  with assms(2) u have "\<not> is_space (hd (rev ?u))" by (simp add: hd_rev)
  then have "dropWhile is_space (rev ?u) = rev ?u"
    using u by (cases "rev ?u") auto
  then show ?thesis using u by (simp add: trim_def)
qed

lemma WHERE_LINE_project_nonempty:
  assumes "WHERE_LINE (trim raw) = Some w"
  shows "trim w \<noteq> []"
proof -
  from assms obtain p where x: "trim raw = p @ w" and w: "w \<noteq> []"
    by (auto simp: WHERE_LINE_def strip_prefix_Some split: bind_splits if_splits)
  then have "\<not> is_space (last (trim raw))" using trim_last [of raw] by simp
  with x w have "\<not> is_space (last w)" by simp
  with w show ?thesis by (rule trim_nonempty)
qed

lemma field_line_project_nonempty:
  "project c \<noteq> Some [] \<Longrightarrow> project (field_line (trim raw) c) \<noteq> Some []"
  using WHERE_LINE_project_nonempty [of raw]
  by (auto simp: field_line_project split: option.splits)

lemma parse_loop_projects:
  "list_all (\<lambda>s. project s \<noteq> Some []) (push_current out cur) \<Longrightarrow>
   list_all (\<lambda>s. project s \<noteq> Some []) (parse_loop ls out cur)"
proof (induction ls arbitrary: out cur)
  case Nil
  then show ?case by simp
next
  case (Cons raw rest)
  show ?case
  proof (cases "SESSION_HEADER (trim raw)")
    case (Some d)
    have "list_all (\<lambda>s. project s \<noteq> Some [])
        (push_current (push_current out cur) (Some (new_session d)))"
      using Cons.prems by (simp add: push_current_def new_session_def)
    from Cons.IH [OF this] Some show ?thesis by (simp add: Let_def)
  next
    case None
    show ?thesis
    proof (cases cur)
      case None
      with Cons.prems Cons.IH [of out None] \<open>SESSION_HEADER (trim raw) = None\<close>
      show ?thesis by (simp add: Let_def)
    next
      case (Some c)
      have "list_all (\<lambda>s. project s \<noteq> Some [])
          (push_current out (Some (field_line (trim raw) c)))"
        using Cons.prems Some by (simp add: push_current_def field_line_project_nonempty)
      from Cons.IH [OF this] Some \<open>SESSION_HEADER (trim raw) = None\<close>
      show ?thesis by (simp add: Let_def)
    qed
  qed
qed

lemma parsed_retained:
  "filter retained (parseProofLog content) =
     filter (\<lambda>s. project s \<noteq> None) (parseProofLog content)"
proof -
  have "list_all (\<lambda>s. project s \<noteq> Some []) (parseProofLog content)"
    unfolding parseProofLog_def by (rule parse_loop_projects) (simp add: push_current_def)
  then have "\<And>s. s \<in> set (parseProofLog content) \<Longrightarrow> retained s = (project s \<noteq> None)"
    by (auto simp: list_all_iff retained_def split: option.splits)
  then show ?thesis by (metis (mono_tags, lifting) filter_cong)
qed

lemma aggregate_nothing: "filter retained ss = [] \<Longrightarrow> aggregate ss = init_state False"
proof -
  assume "filter retained ss = []"
  then have "\<And>st. foldl add_session st ss = st"
    by (induction ss) (auto simp: add_session_skip split: if_splits)
  then show ?thesis by (simp add: aggregate_def)
qed

lemma sortedProjects_init [simp]: "sortedProjects (init_state g) = []"
  by (simp add: sortedProjects_def entries_def init_state_def)

lemma load_ghost: "ghost (load f) = (retained_count f = 0)"
  by (cases f)
    (simp_all add: load_def ghost_def retained_count_def init_state_def aggregate_sessions_zero
      aggregate_isGhostDay parsed_retained)

lemma load_ghost_no_projects: "ghost (load f) \<Longrightarrow> sortedProjects (load f) = []"
proof (cases f)
  case (Content content)
  assume "ghost (load f)"
  then have "filter retained (parseProofLog content) = []"
    using Content by (simp add: load_def ghost_def aggregate_sessions_zero aggregate_isGhostDay)
  then show ?thesis using Content by (simp add: load_def aggregate_nothing)
qed (simp_all add: load_def)

text \<open>
  Claim C4. The formatters take their ghost-day branch exactly when the number of retained
  sessions (sessions with a project) is zero, in each of the three formats: the lines of
  the plain and chat reports and the parts of the tweet are the fixed ghost-day ones
  exactly then. A missing file and an unreadable file have no retained session and give
  the ghost-day report; so does a file whose text yields no retained session.
\<close>

theorem ghost_day:
  "ghost (load f) = (retained_count f = 0)
   \<and> (plain_lines toLocaleString targetDate dow (load f) =
        [[0xD83D, 0xDCCB] @ asc '' AI Standup '' @ [0x2014] @ asc '' '' @ label targetDate dow, []]
        @ plain_ghost_lines @ [FOOTER]) = (retained_count f = 0)
   \<and> (slack_lines toLocaleString targetDate dow (load f) =
        [asc ''*AI Standup '' @ [0x2014] @ asc '' '' @ label targetDate dow @ asc ''*'', []]
        @ slack_ghost_lines) = (retained_count f = 0)
   \<and> (tweet_parts toFixed1 targetDate (load f) = tweet_ghost_parts targetDate)
        = (retained_count f = 0)
   \<and> ghost (load Missing) \<and> ghost (load Unreadable)"
proof (cases "ghost (load f)")
  case True
  then have "retained_count f = 0" by (simp add: load_ghost)
  with True load_ghost_no_projects [OF True] show ?thesis
    by (simp add: plain_lines_def slack_lines_def tweet_parts_def load_def ghost_def
        init_state_def)
next
  case False
  then have n: "retained_count f \<noteq> 0" by (simp add: load_ghost)
  have "plain_lines toLocaleString targetDate dow (load f) \<noteq>
        [[0xD83D, 0xDCCB] @ asc '' AI Standup '' @ [0x2014] @ asc '' '' @ label targetDate dow, []]
        @ plain_ghost_lines @ [FOOTER]"
    using False by (simp add: plain_lines_def plain_work_lines_def plain_ghost_lines_def)
  moreover have "slack_lines toLocaleString targetDate dow (load f) \<noteq>
        [asc ''*AI Standup '' @ [0x2014] @ asc '' '' @ label targetDate dow @ asc ''*'', []]
        @ slack_ghost_lines"
    using False by (simp add: slack_lines_def slack_work_lines_def slack_ghost_lines_def)
  moreover have "tweet_parts toFixed1 targetDate (load f) \<noteq> tweet_ghost_parts targetDate"
    using False by (simp add: tweet_parts_def tweet_work_parts_def tweet_ghost_parts_def)
  ultimately show ?thesis
    using False n by (simp add: load_def ghost_def init_state_def)
qed

lemma js_add_exact: "a + b < 9007199254740992 \<Longrightarrow> js_add (Fin a) (Fin b) = Fin (a + b)"
  by simp

lemma exact_sum_Cons_Some:
  "exact_sum (x # xs) = Some t \<longleftrightarrow> (\<exists>a t'. x = Fin a \<and> exact_sum xs = Some t' \<and> t = a + t')"
  by (cases x) auto

lemma exact_sum_snoc_Some:
  "exact_sum (xs @ [x]) = Some t \<longleftrightarrow> (\<exists>a t'. x = Fin a \<and> exact_sum xs = Some t' \<and> t = t' + a)"
  by (induction xs arbitrary: t rule: exact_sum.induct) (auto simp: exact_sum_Cons_Some)

lemma exact_sum_ones: "exact_sum (map (\<lambda>_. Fin 1) xs) = Some (length xs)"
  by (induction xs) simp_all

lemma exact_sum_alt:
  "exact_sum xs =
     (if Infinity \<in> set xs then None
      else Some (sum_list (map (\<lambda>x. case x of Fin n \<Rightarrow> n | Infinity \<Rightarrow> 0) xs)))"
  by (induction xs rule: exact_sum.induct) auto

lemma foldl_exact:
  assumes step: "\<And>st s. retained s \<Longrightarrow> g (add_session st s) = js_add (g st) (f s)"
  shows "g st = Fin t0 \<Longrightarrow> exact_sum (map f (filter retained ss)) = Some t \<Longrightarrow>
         t0 + t < 9007199254740992 \<Longrightarrow> g (foldl add_session st ss) = Fin (t0 + t)"
proof (induction ss arbitrary: st t0 t)
  case Nil
  then show ?case by simp
next
  case (Cons s ss)
  show ?case
  proof (cases "retained s")
    case False
    with Cons show ?thesis by (simp add: add_session_skip)
  next
    case True
    with Cons.prems(2) obtain a t' where a: "f s = Fin a"
      and t': "exact_sum (map f (filter retained ss)) = Some t'" and t: "t = a + t'"
      by (auto simp: exact_sum_Cons_Some)
    have "g (add_session st s) = Fin (t0 + a)"
      using Cons.prems(1,3) a t by (simp add: step [OF True])
    from Cons.IH [OF this t'] Cons.prems(3) t show ?thesis
      by (simp add: add.assoc)
  qed
qed

lemma aggregate_totals:
  "exact_sum (map durationMin (filter retained ss)) = Some t \<Longrightarrow> t < 9007199254740992 \<Longrightarrow>
     totalMinutes (aggregate ss) = Fin t"
  "exact_sum (map linesAdded (filter retained ss)) = Some t \<Longrightarrow> t < 9007199254740992 \<Longrightarrow>
     totalLines (aggregate ss) = Fin t"
  "exact_sum (map filesChanged (filter retained ss)) = Some t \<Longrightarrow> t < 9007199254740992 \<Longrightarrow>
     totalFiles (aggregate ss) = Fin t"
  "exact_sum (map ccActions (filter retained ss)) = Some t \<Longrightarrow> t < 9007199254740992 \<Longrightarrow>
     totalActions (aggregate ss) = Fin t"
  "length (filter retained ss) < 9007199254740992 \<Longrightarrow>
     totalSessions (aggregate ss) = Fin (length (filter retained ss))"
proof -
  show "exact_sum (map durationMin (filter retained ss)) = Some t \<Longrightarrow> t < 9007199254740992 \<Longrightarrow>
     totalMinutes (aggregate ss) = Fin t"
    using foldl_exact [where g = totalMinutes and f = durationMin and ?t0.0 = 0 and t = t
        and st = "init_state False" and ss = ss]
    by (simp add: aggregate_def add_session_totals init_state_def)
  show "exact_sum (map linesAdded (filter retained ss)) = Some t \<Longrightarrow> t < 9007199254740992 \<Longrightarrow>
     totalLines (aggregate ss) = Fin t"
    using foldl_exact [where g = totalLines and f = linesAdded and ?t0.0 = 0 and t = t
        and st = "init_state False" and ss = ss]
    by (simp add: aggregate_def add_session_totals init_state_def)
  show "exact_sum (map filesChanged (filter retained ss)) = Some t \<Longrightarrow> t < 9007199254740992 \<Longrightarrow>
     totalFiles (aggregate ss) = Fin t"
    using foldl_exact [where g = totalFiles and f = filesChanged and ?t0.0 = 0 and t = t
        and st = "init_state False" and ss = ss]
    by (simp add: aggregate_def add_session_totals init_state_def)
  show "exact_sum (map ccActions (filter retained ss)) = Some t \<Longrightarrow> t < 9007199254740992 \<Longrightarrow>
     totalActions (aggregate ss) = Fin t"
    using foldl_exact [where g = totalActions and f = ccActions and ?t0.0 = 0 and t = t
        and st = "init_state False" and ss = ss]
    by (simp add: aggregate_def add_session_totals init_state_def)
  show "length (filter retained ss) < 9007199254740992 \<Longrightarrow>
     totalSessions (aggregate ss) = Fin (length (filter retained ss))"
    using foldl_exact [where g = totalSessions and f = "\<lambda>_. Fin 1" and ?t0.0 = 0
        and t = "length (filter retained ss)" and st = "init_state False" and ss = ss]
    by (simp add: aggregate_def add_session_totals init_state_def exact_sum_ones
        del: One_nat_def)
qed

lemma bump_Cons:
  "bump p s (e # bp) =
     (if fst e = p
      then (fst e, (snd e)\<lparr>minutes := js_add (minutes (snd e)) (durationMin s),
                            sessions := js_add (sessions (snd e)) (Fin 1),
                            linesAdded_p := js_add (linesAdded_p (snd e)) (linesAdded s),
                            files := js_add (files (snd e)) (filesChanged s)\<rparr>)
      else e) # bump p s bp"
  by (cases e) (simp add: bump_def)

lemma bump_exact:
  assumes upd: "\<And>b. g (b\<lparr>minutes := js_add (minutes b) (durationMin s),
                          sessions := js_add (sessions b) (Fin 1),
                          linesAdded_p := js_add (linesAdded_p b) (linesAdded s),
                          files := js_add (files b) (filesChanged s)\<rparr>) = js_add (g b) (f s)"
    and fs: "f s = Fin d"
  shows "distinct (map fst bp) \<Longrightarrow> p \<in> set (map fst bp) \<Longrightarrow>
         exact_sum (map (\<lambda>e. g (snd e)) bp) = Some t1 \<Longrightarrow> t1 + d < 9007199254740992 \<Longrightarrow>
         exact_sum (map (\<lambda>e. g (snd e)) (bump p s bp)) = Some (t1 + d)"
proof (induction bp arbitrary: t1)
  case Nil
  then show ?case by simp
next
  case (Cons e bp)
  from Cons.prems(3) obtain a t' where a: "g (snd e) = Fin a"
    and t': "exact_sum (map (\<lambda>e. g (snd e)) bp) = Some t'" and t1: "t1 = a + t'"
    by (auto simp: exact_sum_Cons_Some)
  show ?case
  proof (cases "fst e = p")
    case True
    with Cons.prems(1) have "p \<notin> set (map fst bp)" by auto
    then have "bump p s bp = bp" by (rule bump_absent)
    moreover have "js_add (Fin a) (Fin d) = Fin (a + d)"
      using Cons.prems(4) t1 by simp
    ultimately show ?thesis
      using True a t' t1 by (simp add: bump_Cons upd fs del: One_nat_def)
  next
    case False
    with Cons.prems have "distinct (map fst bp)" "p \<in> set (map fst bp)"
      "t' + d < 9007199254740992"
      using t1 by auto
    from Cons.IH [OF this(1,2) t' this(3)] False a t1 show ?thesis
      by (simp add: bump_Cons)
  qed
qed

lemma add_session_unlisted:
  assumes "list_all (\<lambda>k. \<not> inherited k) (map fst (byProject st))" and "\<not> listed s"
  shows "byProject (add_session st s) = byProject st"
proof (cases "retained s")
  case False
  then show ?thesis by (simp add: add_session_skip)
next
  case True
  with assms(2) obtain p where p: "project s = Some p" "p \<noteq> []" "inherited p"
    by (auto simp: retained_def listed_def split: option.splits)
  with assms(1) have "p \<notin> set (map fst (byProject st))" by (auto simp: list_all_iff)
  with p show ?thesis
    by (simp add: add_session_def Let_def no_bucket_iff bump_absent)
qed

lemma add_session_bucket_exact:
  assumes upd: "\<And>b. g (b\<lparr>minutes := js_add (minutes b) (durationMin s),
                          sessions := js_add (sessions b) (Fin 1),
                          linesAdded_p := js_add (linesAdded_p b) (linesAdded s),
                          files := js_add (files b) (filesChanged s)\<rparr>) = js_add (g b) (f s)"
    and zero: "g \<lparr>minutes = Fin 0, sessions = Fin 0, linesAdded_p = Fin 0, files = Fin 0\<rparr> = Fin 0"
    and d: "distinct (map fst (byProject st))"
    and l: "listed s"
    and fs: "f s = Fin n"
    and e: "exact_sum (map (\<lambda>e. g (snd e)) (byProject st)) = Some t1"
    and b: "t1 + n < 9007199254740992"
  shows "exact_sum (map (\<lambda>e. g (snd e)) (byProject (add_session st s))) = Some (t1 + n)"
proof -
  let ?bp = "byProject st"
  let ?z = "\<lparr>minutes = Fin 0, sessions = Fin 0, linesAdded_p = Fin 0, files = Fin 0\<rparr>"
  from l obtain p where p: "project s = Some p" "p \<noteq> []" "\<not> inherited p"
    by (auto simp: listed_def split: option.splits)
  show ?thesis
  proof (cases "p \<in> set (map fst ?bp)")
    case True
    have "byProject (add_session st s) = bump p s ?bp"
      using p True by (simp add: add_session_def Let_def no_bucket_iff)
    with bump_exact [of g s f n ?bp p t1, OF upd fs d True e b] show ?thesis by simp
  next
    case False
    have bp: "byProject (add_session st s) = bump p s (?bp @ [(p, ?z)])"
      using p False by (simp add: add_session_def Let_def no_bucket_iff)
    have d': "distinct (map fst (?bp @ [(p, ?z)]))" and m: "p \<in> set (map fst (?bp @ [(p, ?z)]))"
      using d False by simp_all
    have e': "exact_sum (map (\<lambda>e. g (snd e)) (?bp @ [(p, ?z)])) = Some t1"
      using e by (simp add: exact_sum_snoc_Some zero)
    from bump_exact [of g s f n "?bp @ [(p, ?z)]" p t1, OF upd fs d' m e' b] bp
    show ?thesis by simp
  qed
qed

lemma aggregate_bucket_exact:
  assumes upd: "\<And>s b. g (b\<lparr>minutes := js_add (minutes b) (durationMin s),
                          sessions := js_add (sessions b) (Fin 1),
                          linesAdded_p := js_add (linesAdded_p b) (linesAdded s),
                          files := js_add (files b) (filesChanged s)\<rparr>) = js_add (g b) (f s)"
    and zero: "g \<lparr>minutes = Fin 0, sessions = Fin 0, linesAdded_p = Fin 0, files = Fin 0\<rparr> = Fin 0"
  shows "exact_sum (map f (filter listed ss)) = Some t \<Longrightarrow> t < 9007199254740992 \<Longrightarrow>
         exact_sum (map (\<lambda>e. g (snd e)) (byProject (aggregate ss))) = Some t"
proof (induction ss arbitrary: t rule: rev_induct)
  case Nil
  then show ?case by (simp add: aggregate_def init_state_def)
next
  case (snoc s ss)
  have d: "distinct (map fst (byProject (aggregate ss)))"
    by (rule aggregate_keys_distinct)
  have i: "list_all (\<lambda>k. \<not> inherited k) (map fst (byProject (aggregate ss)))"
    using aggregate_keys_not_inherited [of _ ss] by (auto simp: list_all_iff)
  show ?case
  proof (cases "listed s")
    case False
    with snoc show ?thesis
      by (simp add: aggregate_snoc add_session_unlisted [OF i])
  next
    case True
    with snoc.prems(1) obtain n t1 where n: "f s = Fin n"
      and t1: "exact_sum (map f (filter listed ss)) = Some t1" and t: "t = t1 + n"
      by (auto simp: exact_sum_snoc_Some)
    have "t1 < 9007199254740992" using snoc.prems(2) t by simp
    from snoc.IH [OF t1 this]
    have e: "exact_sum (map (\<lambda>e. g (snd e)) (byProject (aggregate ss))) = Some t1" .
    have b: "t1 + n < 9007199254740992" using snoc.prems(2) t by simp
    from add_session_bucket_exact [of g s f "aggregate ss" n t1, OF upd zero d True n e b] t
    show ?thesis by (simp add: aggregate_snoc)
  qed
qed

lemma sum_list_insort_key:
  "sum_list (map (f :: 'a \<Rightarrow> nat) (insort_key k x xs)) = f x + sum_list (map f xs)"
  by (induction xs) auto

lemma sum_list_sort_key:
  "sum_list (map (f :: 'a \<Rightarrow> nat) (sort_key k xs)) = sum_list (map f xs)"
  by (induction xs) (auto simp: sum_list_insort_key)

lemma sum_list_partition:
  "sum_list (map (f :: 'a \<Rightarrow> nat) (filter P xs)) + sum_list (map f (filter (\<lambda>x. \<not> P x) xs))
     = sum_list (map f xs)"
  by (induction xs) auto

lemma set_entries [simp]: "set (entries bp) = set bp"
  by (auto simp: entries_def)

lemma exact_sum_sortedProjects:
  "exact_sum (map h (sortedProjects st)) = exact_sum (map h (byProject st))"
proof -
  have s: "set (sortedProjects st) = set (byProject st)"
    by (simp add: sortedProjects_def)
  have "sum_list (map (\<lambda>e. case h e of Fin n \<Rightarrow> n | Infinity \<Rightarrow> 0) (sortedProjects st))
      = sum_list (map (\<lambda>e. case h e of Fin n \<Rightarrow> n | Infinity \<Rightarrow> 0) (byProject st))"
    by (simp add: sortedProjects_def entries_def sum_list_sort_key sum_list_partition)
  then show ?thesis
    by (simp add: exact_sum_alt s comp_def)
qed

lemma bucket_sums_match_totals:
  assumes m: "list_all (\<lambda>s. retained s = listed s) ss"
  shows "exact_sum (map durationMin (filter retained ss)) = Some t \<Longrightarrow> t < 9007199254740992 \<Longrightarrow>
      exact_sum (map (\<lambda>e. minutes (snd e)) (sortedProjects (aggregate ss))) = Some t
      \<and> totalMinutes (aggregate ss) = Fin t"
    and "exact_sum (map linesAdded (filter retained ss)) = Some t \<Longrightarrow> t < 9007199254740992 \<Longrightarrow>
      exact_sum (map (\<lambda>e. linesAdded_p (snd e)) (sortedProjects (aggregate ss))) = Some t
      \<and> totalLines (aggregate ss) = Fin t"
    and "exact_sum (map filesChanged (filter retained ss)) = Some t \<Longrightarrow> t < 9007199254740992 \<Longrightarrow>
      exact_sum (map (\<lambda>e. files (snd e)) (sortedProjects (aggregate ss))) = Some t
      \<and> totalFiles (aggregate ss) = Fin t"
    and "length (filter retained ss) < 9007199254740992 \<Longrightarrow>
      exact_sum (map (\<lambda>e. sessions (snd e)) (sortedProjects (aggregate ss)))
        = Some (length (filter retained ss))
      \<and> totalSessions (aggregate ss) = Fin (length (filter retained ss))"
proof -
  from m have f: "filter retained ss = filter listed ss"
    by (induction ss) auto
  show "exact_sum (map durationMin (filter retained ss)) = Some t \<Longrightarrow> t < 9007199254740992 \<Longrightarrow>
      exact_sum (map (\<lambda>e. minutes (snd e)) (sortedProjects (aggregate ss))) = Some t
      \<and> totalMinutes (aggregate ss) = Fin t"
    using aggregate_bucket_exact [where g = minutes and f = durationMin and ss = ss and t = t]
      aggregate_totals(1) [of ss t]
    by (simp add: exact_sum_sortedProjects f)
  show "exact_sum (map linesAdded (filter retained ss)) = Some t \<Longrightarrow> t < 9007199254740992 \<Longrightarrow>
      exact_sum (map (\<lambda>e. linesAdded_p (snd e)) (sortedProjects (aggregate ss))) = Some t
      \<and> totalLines (aggregate ss) = Fin t"
    using aggregate_bucket_exact [where g = linesAdded_p and f = linesAdded and ss = ss and t = t]
      aggregate_totals(2) [of ss t]
    by (simp add: exact_sum_sortedProjects f)
  show "exact_sum (map filesChanged (filter retained ss)) = Some t \<Longrightarrow> t < 9007199254740992 \<Longrightarrow>
      exact_sum (map (\<lambda>e. files (snd e)) (sortedProjects (aggregate ss))) = Some t
      \<and> totalFiles (aggregate ss) = Fin t"
    using aggregate_bucket_exact [where g = files and f = filesChanged and ss = ss and t = t]
      aggregate_totals(3) [of ss t]
    by (simp add: exact_sum_sortedProjects f)
  show "length (filter retained ss) < 9007199254740992 \<Longrightarrow>
      exact_sum (map (\<lambda>e. sessions (snd e)) (sortedProjects (aggregate ss)))
        = Some (length (filter retained ss))
      \<and> totalSessions (aggregate ss) = Fin (length (filter retained ss))"
    using aggregate_bucket_exact [where g = sessions and f = "\<lambda>_. Fin 1" and ss = ss
        and t = "length (filter retained ss)"]
      aggregate_totals(5) [of ss]
    by (simp add: exact_sum_sortedProjects f exact_sum_ones del: One_nat_def)
qed

text \<open>
  Claim C2, evaluated on a log with one session of 30 minutes whose project is named
  \<^verbatim>\<open>constructor\<close>. The session is retained and counted in the grand totals, but
  \<^verbatim>\<open>byProject["constructor"]\<close> reads the inherited \<^verbatim>\<open>Object.prototype.constructor\<close>,
  so no bucket is created: the totals are 30 minutes and one session, and over the
  project aggregates both sums are zero. (The lemmas \<open>aggregate_totals\<close> and
  \<open>bucket_sums_match_totals\<close> above show that, as long as a sum stays below \<open>2 ^ 53\<close>,
  the total is the sum over the retained sessions, and the sum over the buckets agrees
  with it whenever no project is named like a property of \<^verbatim>\<open>Object.prototype\<close>.)
\<close>

theorem inherited_project_has_no_bucket:
  "map project (parseProofLog (join [10] log_ctor)) = [Some (asc ''constructor'')]
   \<and> map durationMin (parseProofLog (join [10] log_ctor)) = [Fin 30]
   \<and> totalMinutes (load (Content (join [10] log_ctor))) = Fin 30
   \<and> totalSessions (load (Content (join [10] log_ctor))) = Fin 1
   \<and> sortedProjects (load (Content (join [10] log_ctor))) = []
   \<and> exact_sum (map (\<lambda>e. minutes (snd e)) (sortedProjects (load (Content (join [10] log_ctor)))))
       = Some 0
   \<and> exact_sum (map (\<lambda>e. sessions (snd e)) (sortedProjects (load (Content (join [10] log_ctor)))))
       = Some 0"
proof -
  have p: "parseProofLog (join [10] log_ctor) =
      [\<lparr>date = asc ''2026-02-27'', durationMin = Fin 30, project = Some (asc ''constructor''),
        ccActions = Fin 0, filesChanged = Fin 0, linesAdded = Fin 0, linesRemoved = Fin 0\<rparr>]"
    by (simp add: log_ctor_def ex_defs parse_defs)
  have l: "load (Content (join [10] log_ctor)) =
      \<lparr>isGhostDay = False, byProject = [], totalMinutes = Fin 30, totalSessions = Fin 1,
       totalLines = Fin 0, totalFiles = Fin 0, totalActions = Fin 0\<rparr>"
    unfolding load_def logfile.case p by (simp add: agg_defs asc_def)
  show ?thesis
    unfolding l p by (simp add: sortedProjects_def entries_def)
qed

lemma desc_key_le: "desc_key x \<le> desc_key y \<longleftrightarrow> num_le y x"
  by (cases x; cases y) (simp_all add: desc_key_def num_le_def)

lemma desc_key_eq: "desc_key x = desc_key y \<longleftrightarrow> x = y"
  by (cases x; cases y) (simp_all add: desc_key_def)

lemma sortedProjects_sorted:
  "sorted_wrt (\<lambda>a b. num_le (minutes (snd b)) (minutes (snd a))) (sortedProjects st)"
proof -
  have "sorted (map (\<lambda>e. desc_key (minutes (snd e))) (sortedProjects st))"
    by (simp add: sortedProjects_def)
  then show ?thesis
    by (simp add: sorted_map desc_key_le)
qed

lemma sortedProjects_ties:
  "filter (\<lambda>e. minutes (snd e) = m) (sortedProjects st)
     = filter (\<lambda>e. minutes (snd e) = m) (entries (byProject st))"
proof -
  let ?key = "\<lambda>e :: jsstr \<times> stats. desc_key (minutes (snd e))"
  have "filter (\<lambda>e. ?key e = desc_key m) (sort_key ?key (entries (byProject st)))
      = filter (\<lambda>e. ?key e = desc_key m) (entries (byProject st))"
    by (rule sort_key_stable)
  then show ?thesis
    by (simp add: sortedProjects_def desc_key_eq)
qed

lemma entries_not_index:
  "filter (\<lambda>e. \<not> is_array_index (fst e)) (entries bp) = filter (\<lambda>e. \<not> is_array_index (fst e)) bp"
proof -
  have "filter (\<lambda>e. \<not> is_array_index (fst e))
          (sort_key (\<lambda>e. digits_value (fst e)) (filter (\<lambda>e. is_array_index (fst e)) bp)) = []"
    by (simp add: filter_empty_conv)
  then show ?thesis by (simp add: entries_def)
qed

lemma entries_index:
  "filter (\<lambda>e. is_array_index (fst e)) (entries bp)
     = sort_key (\<lambda>e. digits_value (fst e)) (filter (\<lambda>e. is_array_index (fst e)) bp)"
proof -
  have "filter (\<lambda>e. is_array_index (fst e))
          (sort_key (\<lambda>e. digits_value (fst e)) (filter (\<lambda>e. is_array_index (fst e)) bp))
        = sort_key (\<lambda>e. digits_value (fst e)) (filter (\<lambda>e. is_array_index (fst e)) bp)"
    by (simp add: filter_id_conv)
  then show ?thesis by (simp add: entries_def)
qed

text \<open>
  Claim C3, amended. The project list that the formatters present is in non-increasing
  order of minutes. The own properties of \<^verbatim>\<open>byProject\<close> are created in the order in
  which the projects are first encountered, and among the entries with equal minutes,
  those whose names are not array indices appear in that order, on every input.
\<close>

theorem sortedProjects_order:
  "sorted_wrt (\<lambda>a b. num_le (minutes (snd b)) (minutes (snd a))) (sortedProjects (aggregate ss))
   \<and> map fst (byProject (aggregate ss))
       = first_seen (map (\<lambda>s. the (project s)) (filter listed ss))
   \<and> filter (\<lambda>e. minutes (snd e) = m \<and> \<not> is_array_index (fst e)) (sortedProjects (aggregate ss))
       = filter (\<lambda>e. minutes (snd e) = m \<and> \<not> is_array_index (fst e)) (byProject (aggregate ss))"
proof (intro conjI)
  let ?st = "aggregate ss"
  show "sorted_wrt (\<lambda>a b. num_le (minutes (snd b)) (minutes (snd a))) (sortedProjects ?st)"
    by (rule sortedProjects_sorted)
  show "map fst (byProject ?st) = first_seen (map (\<lambda>s. the (project s)) (filter listed ss))"
    by (rule aggregate_keys)
  have "filter (\<lambda>e. minutes (snd e) = m \<and> \<not> is_array_index (fst e)) (sortedProjects ?st)
      = filter (\<lambda>e. \<not> is_array_index (fst e)) (filter (\<lambda>e. minutes (snd e) = m) (sortedProjects ?st))"
    by (simp add: conj_commute)
  also have "\<dots> = filter (\<lambda>e. \<not> is_array_index (fst e))
      (filter (\<lambda>e. minutes (snd e) = m) (entries (byProject ?st)))"
    by (simp only: sortedProjects_ties)
  also have "\<dots> = filter (\<lambda>e. minutes (snd e) = m)
      (filter (\<lambda>e. \<not> is_array_index (fst e)) (entries (byProject ?st)))"
    by (simp add: conj_commute)
  also have "\<dots> = filter (\<lambda>e. minutes (snd e) = m)
      (filter (\<lambda>e. \<not> is_array_index (fst e)) (byProject ?st))"
    by (simp only: entries_not_index)
  also have "\<dots> = filter (\<lambda>e. minutes (snd e) = m \<and> \<not> is_array_index (fst e)) (byProject ?st)"
    by (simp add: conj_commute)
  finally show "filter (\<lambda>e. minutes (snd e) = m \<and> \<not> is_array_index (fst e)) (sortedProjects ?st)
      = filter (\<lambda>e. minutes (snd e) = m \<and> \<not> is_array_index (fst e)) (byProject ?st)" .
qed

text \<open>
  Two sessions of 60 minutes, the first for \<^verbatim>\<open>alpha\<close> and the second for a project
  named \<^verbatim>\<open>7\<close>: \<^verbatim>\<open>Object.entries\<close> lists the array index \<^verbatim>\<open>7\<close> first and the stable
  sort keeps it there, before the project that was encountered first.
\<close>

theorem tie_order_counterexample:
  "map project (parseProofLog (join [10] log_tie)) = [Some (asc ''alpha''), Some (asc ''7'')]
   \<and> first_seen (map (\<lambda>s. the (project s)) (filter listed (parseProofLog (join [10] log_tie))))
       = [asc ''alpha'', asc ''7'']
   \<and> map (\<lambda>e. minutes (snd e)) (sortedProjects (load (Content (join [10] log_tie))))
       = [Fin 60, Fin 60]
   \<and> map fst (sortedProjects (load (Content (join [10] log_tie)))) = [asc ''7'', asc ''alpha'']
   \<and> map fst (sortedProjects (load (Content (join [10] log_tie))))
       \<noteq> first_seen (map (\<lambda>s. the (project s)) (filter listed (parseProofLog (join [10] log_tie))))"
proof -
  have p: "parseProofLog (join [10] log_tie) =
      [\<lparr>date = asc ''2026-02-27'', durationMin = Fin 60, project = Some (asc ''alpha''),
        ccActions = Fin 0, filesChanged = Fin 0, linesAdded = Fin 0, linesRemoved = Fin 0\<rparr>,
       \<lparr>date = asc ''2026-02-27'', durationMin = Fin 60, project = Some (asc ''7''),
        ccActions = Fin 0, filesChanged = Fin 0, linesAdded = Fin 0, linesRemoved = Fin 0\<rparr>]"
    by (simp add: log_tie_def ex_defs parse_defs)
  have s: "sortedProjects (load (Content (join [10] log_tie))) =
      [(asc ''7'', \<lparr>minutes = Fin 60, sessions = Fin 1, linesAdded_p = Fin 0, files = Fin 0\<rparr>),
       (asc ''alpha'', \<lparr>minutes = Fin 60, sessions = Fin 1, linesAdded_p = Fin 0, files = Fin 0\<rparr>)]"
    unfolding load_def logfile.case p by (simp add: agg_defs asc_def)
  have f: "first_seen (map (\<lambda>s. the (project s)) (filter listed (parseProofLog (join [10] log_tie))))
       = [asc ''alpha'', asc ''7'']"
    unfolding p by (simp add: listed_def inherited_def Object_prototype_names_def asc_def)
  show ?thesis
    by (simp only: s f) (simp add: p asc_def)
qed

theorem sortedProjects_order_witness:
  "map fst (byProject (aggregate log_mixed)) = [asc ''alpha'', asc ''beta'', asc ''7'']
   \<and> map fst (sortedProjects (aggregate log_mixed)) = [asc ''alpha'', asc ''beta'', asc ''7'']
   \<and> map fst (filter (\<lambda>e. minutes (snd e) = Fin 60 \<and> \<not> is_array_index (fst e))
        (sortedProjects (aggregate log_mixed))) = [asc ''alpha'', asc ''beta'']"
proof -
  have b: "byProject (aggregate log_mixed) =
     [(asc ''alpha'', \<lparr>minutes = Fin 60, sessions = Fin 1, linesAdded_p = Fin 0, files = Fin 0\<rparr>),
      (asc ''beta'', \<lparr>minutes = Fin 60, sessions = Fin 1, linesAdded_p = Fin 0, files = Fin 0\<rparr>),
      (asc ''7'', \<lparr>minutes = Fin 5, sessions = Fin 1, linesAdded_p = Fin 0, files = Fin 0\<rparr>)]"
    by (simp add: log_mixed_def agg_defs asc_def)
  have s: "map fst (sortedProjects (aggregate log_mixed)) = [asc ''alpha'', asc ''beta'', asc ''7'']"
    by (simp add: log_mixed_def agg_defs asc_def)
  have "filter (\<lambda>e. minutes (snd e) = Fin 60 \<and> \<not> is_array_index (fst e))
          (sortedProjects (aggregate log_mixed))
      = filter (\<lambda>e. minutes (snd e) = Fin 60 \<and> \<not> is_array_index (fst e))
          (byProject (aggregate log_mixed))"
    using sortedProjects_order [of log_mixed "Fin 60"] by blast
  then have "map fst (filter (\<lambda>e. minutes (snd e) = Fin 60 \<and> \<not> is_array_index (fst e))
        (sortedProjects (aggregate log_mixed))) = [asc ''alpha'', asc ''beta'']"
    unfolding b by (simp add: is_array_index_def is_digit_def asc_def)
  with b s show ?thesis by simp
qed

end
